theory Spec2Isabelle
  imports Main
begin

section \<open>Errors, element type and machine sizes\<close>

text \<open>
  The three ways an operation of \<^verbatim>\<open>simple_vector.h\<close> can end without returning:
  \<^verbatim>\<open>throw std::out_of_range\<close> (only in \<^verbatim>\<open>At\<close>), a failed allocation inside the
  constructor of \<^verbatim>\<open>ArrayPtr\<close>, and a failed \<^verbatim>\<open>assert\<close>. The assertions are compiled
  in: an operation called outside its precondition stops there, with the container as it
  was. What a build with \<^verbatim>\<open>NDEBUG\<close> does beyond a violated precondition is undefined
  behaviour and has no model here.

  A fourth end is no error the source reports: \<^verbatim>\<open>PushBack\<close> and \<^verbatim>\<open>Insert\<close> read their
  \<^verbatim>\<open>const Type&\<close> argument after they have made room, and a reference into the buffer
  that growing has released refers to nothing any more. Reading it is undefined
  behaviour; the operation's model stops there with \<open>DanglingReference\<close> and the state
  it had reached.
\<close>

datatype error = OutOfRange | BadAlloc | AssertionFailed | DanglingReference

text \<open>
  The template parameter \<^verbatim>\<open>Type\<close>: the value of \<^verbatim>\<open>Type{}\<close> and what a move
  leaves behind in the object moved from (the identity for \<^verbatim>\<open>int\<close>, the empty string
  for \<^verbatim>\<open>std::string\<close>, ...).
\<close>

record 'a Type_ops =
  Type_default :: 'a
  moved_from :: "'a \<Rightarrow> 'a"

text \<open>\<^verbatim>\<open>size_t\<close> is 64 bits wide; \<open>size_t n\<close> is the value a \<^verbatim>\<open>size_t\<close> holds after
  an arithmetic operation whose mathematical result is \<open>n\<close>. Sizes, capacities and
  indices are natural numbers, and every sum or product the source computes on them goes
  through \<open>size_t\<close>.\<close>

definition size_t :: "nat \<Rightarrow> nat" where
  "size_t n = n mod 2 ^ 64"

text \<open>\<^verbatim>\<open>--n\<close> on a \<^verbatim>\<open>size_t\<close>: 0 wraps around to \<^verbatim>\<open>SIZE_MAX\<close>.\<close>

definition size_t_pred :: "nat \<Rightarrow> nat" where
  "size_t_pred n = (if n = 0 then 2 ^ 64 - 1 else n - 1)"

section \<open>The raw buffer owner\<close>

text \<open>
  Modelled from the spec: \<^verbatim>\<open>array_ptr.h\<close> (class \<^verbatim>\<open>ArrayPtr\<close>) is included by
  \<^verbatim>\<open>simple_vector.h\<close> but is not among the sources. The spec (sections 2 and 6)
  describes it as the exclusive owner of one contiguous block of a fixed number of slots:
  it is constructed with N slots, each default-constructed, and that construction fails
  when the allocation fails; it releases its slots on destruction; it gives unchecked
  indexed access and a pointer to the first slot; two owners swap their blocks in
  constant time.

  A block is exclusively owned, so its slots are kept inside the owner, next to the
  address of the block, which is what tells two blocks apart. The allocator hands out
  addresses in increasing order and has \<open>avail\<close> free slots left; a request fails when
  it asks for more than that, or for more than \<open>max_slots\<close> slots, the largest array the
  address space admits (\<^verbatim>\<open>PTRDIFF_MAX\<close>).
\<close>

record 'a ArrayPtr =
  raw_ptr :: nat
  slots :: "'a list"

record allocator =
  next_addr :: nat
  avail :: nat

definition max_slots :: nat where
  "max_slots = 2 ^ 63 - 1"

text \<open>Modelled from the spec: the default constructor of \<^verbatim>\<open>ArrayPtr\<close> owns nothing
  (the null address 0, no slot).\<close>

definition ArrayPtr_null :: "'a ArrayPtr" where
  "ArrayPtr_null = \<lparr>raw_ptr = 0, slots = []\<rparr>"

text \<open>Modelled from the spec: \<^verbatim>\<open>ArrayPtr(size)\<close>, "construct a buffer of N slots,
  default-constructing each slot's element (fails/propagates if allocation or element
  construction fails)". \<open>can_alloc m n\<close> says that the allocator \<open>m\<close> can make a
  block of \<open>n\<close> slots.\<close>

definition can_alloc :: "allocator \<Rightarrow> nat \<Rightarrow> bool" where
  "can_alloc m n \<longleftrightarrow> n \<le> avail m \<and> n \<le> max_slots"

definition ArrayPtr_new ::
  "'a Type_ops \<Rightarrow> allocator \<Rightarrow> nat \<Rightarrow> error + ('a ArrayPtr \<times> allocator)" where
  "ArrayPtr_new T m n =
     (if can_alloc m n
      then Inr (\<lparr>raw_ptr = next_addr m, slots = replicate n (Type_default T)\<rparr>,
                m\<lparr>next_addr := Suc (next_addr m), avail := avail m - n\<rparr>)
      else Inl BadAlloc)"

text \<open>Modelled from the spec: the destructor of \<^verbatim>\<open>ArrayPtr\<close>, "release all owned slots
  on destruction".\<close>

definition ArrayPtr_delete :: "allocator \<Rightarrow> 'a ArrayPtr \<Rightarrow> allocator" where
  "ArrayPtr_delete m a = m\<lparr>avail := avail m + length (slots a)\<rparr>"

text \<open>Modelled from the spec: \<^verbatim>\<open>ArrayPtr::swap\<close>, "a constant-time ownership-swap
  operation with another buffer owner"; the pair is the two owners after the call.\<close>

definition ArrayPtr_swap :: "'a ArrayPtr \<Rightarrow> 'a ArrayPtr \<Rightarrow> 'a ArrayPtr \<times> 'a ArrayPtr" where
  "ArrayPtr_swap a b = (b, a)"

text \<open>Modelled from the spec: \<^verbatim>\<open>ArrayPtr::operator[]\<close>, "indexed element access,
  unchecked".\<close>

definition ArrayPtr_index :: "'a ArrayPtr \<Rightarrow> nat \<Rightarrow> 'a" where
  "ArrayPtr_index a i = slots a ! i"

section \<open>The loops of the standard algorithms\<close>

text \<open>
  An iterator of the container is a \<^verbatim>\<open>Type*\<close> into its buffer; it is modelled by its
  distance from \<^verbatim>\<open>a_.Get()\<close>, so \<^verbatim>\<open>begin()\<close> is 0 and \<^verbatim>\<open>end()\<close> is the size.
  Each algorithm is the loop \<^verbatim>\<open>while (first != last)\<close> of the standard library; the
  container only calls them with the first iterator not beyond the last, where the
  tests \<open>\<noteq>\<close> and \<open><\<close> agree. (\<open>last\<close> is a constant of HOL, so the variable is \<open>last'\<close>.)
\<close>

text \<open>\<^verbatim>\<open>std::fill(first, last, value)\<close>; with \<open>value = Type{}\<close> also the loop
  \<^verbatim>\<open>for (it = first; it != last; ++it) std::exchange(*it, std::move(Type{}))\<close> of
  \<^verbatim>\<open>Resize\<close>.\<close>

function std_fill :: "'a list \<Rightarrow> nat \<Rightarrow> nat \<Rightarrow> 'a \<Rightarrow> 'a list" where
  "std_fill buf first last' v =
     (if first < last' then std_fill (buf[first := v]) (Suc first) last' v else buf)"
  by pat_completeness auto
termination
  by (relation "measure (\<lambda>(buf, first, last', v). last' - first)") auto

text \<open>\<^verbatim>\<open>std::copy(first, last, d_first)\<close> from the buffer \<open>src\<close> into another buffer
  \<open>dst\<close>; the result is the destination buffer.\<close>

function std_copy :: "'a list \<Rightarrow> nat \<Rightarrow> nat \<Rightarrow> 'a list \<Rightarrow> nat \<Rightarrow> 'a list" where
  "std_copy src first last' dst d_first =
     (if first < last'
      then std_copy src (Suc first) last' (dst[d_first := src ! first]) (Suc d_first)
      else dst)"
  by pat_completeness auto
termination
  by (relation "measure (\<lambda>(src, first, last', dst, d_first). last' - first)") auto

text \<open>\<^verbatim>\<open>std::copy\<close> over \<^verbatim>\<open>std::make_move_iterator\<close>s from the buffer \<open>src\<close> into
  another buffer \<open>dst\<close>: every assignment \<^verbatim>\<open>*d_first = std::move(*first)\<close> leaves the
  source slot moved from. The result is both buffers.\<close>

function std_copy_move ::
  "('a \<Rightarrow> 'a) \<Rightarrow> 'a list \<Rightarrow> nat \<Rightarrow> nat \<Rightarrow> 'a list \<Rightarrow> nat \<Rightarrow> 'a list \<times> 'a list" where
  "std_copy_move mv src first last' dst d_first =
     (if first < last'
      then std_copy_move mv (src[first := mv (src ! first)]) (Suc first) last'
             (dst[d_first := src ! first]) (Suc d_first)
      else (src, dst))"
  by pat_completeness auto
termination
  by (relation "measure (\<lambda>(mv, src, first, last', dst, d_first). last' - first)") auto

text \<open>The same loop when source and destination lie in one buffer (\<^verbatim>\<open>Erase\<close>).\<close>

function std_copy_move_within ::
  "('a \<Rightarrow> 'a) \<Rightarrow> 'a list \<Rightarrow> nat \<Rightarrow> nat \<Rightarrow> nat \<Rightarrow> 'a list" where
  "std_copy_move_within mv buf first last' d_first =
     (if first < last'
      then std_copy_move_within mv
             (buf[d_first := buf ! first, first := mv (buf ! first)])
             (Suc first) last' (Suc d_first)
      else buf)"
  by pat_completeness auto
termination
  by (relation "measure (\<lambda>(mv, buf, first, last', d_first). last' - first)") auto

text \<open>\<^verbatim>\<open>std::copy_backward\<close> over \<^verbatim>\<open>std::make_move_iterator\<close>s inside one buffer
  (\<^verbatim>\<open>GetPosToInsert\<close>): \<^verbatim>\<open>while (first != last) *(--d_last) = std::move(*(--last))\<close>.\<close>

function std_copy_backward_move_within ::
  "('a \<Rightarrow> 'a) \<Rightarrow> 'a list \<Rightarrow> nat \<Rightarrow> nat \<Rightarrow> nat \<Rightarrow> 'a list" where
  "std_copy_backward_move_within mv buf first last' d_last =
     (if first < last'
      then std_copy_backward_move_within mv
             (buf[d_last - 1 := buf ! (last' - 1), last' - 1 := mv (buf ! (last' - 1))])
             first (last' - 1) (d_last - 1)
      else buf)"
  by pat_completeness auto
termination
  by (relation "measure (\<lambda>(mv, buf, first, last', d_last). last' - first)") auto

text \<open>\<^verbatim>\<open>std::equal(first1, last1, first2)\<close> over two buffers.\<close>

function std_equal :: "'a list \<Rightarrow> nat \<Rightarrow> nat \<Rightarrow> 'a list \<Rightarrow> nat \<Rightarrow> bool" where
  "std_equal xs first1 last1 ys first2 =
     (if first1 < last1
      then (if xs ! first1 = ys ! first2 then std_equal xs (Suc first1) last1 ys (Suc first2)
            else False)
      else True)"
  by pat_completeness auto
termination
  by (relation "measure (\<lambda>(xs, first1, last1, ys, first2). last1 - first1)") auto

declare std_fill.simps [simp del] std_copy.simps [simp del] std_copy_move.simps [simp del]
  std_copy_move_within.simps [simp del] std_copy_backward_move_within.simps [simp del]
  std_equal.simps [simp del]

section \<open>The container\<close>

text \<open>The members \<^verbatim>\<open>a_\<close>, \<^verbatim>\<open>size_\<close> and \<^verbatim>\<open>capacity_\<close> (a name cannot end in an
  underscore here).\<close>

record 'a SimpleVector =
  a_field :: "'a ArrayPtr"
  size_field :: nat
  capacity_field :: nat

text \<open>\<^verbatim>\<open>class ReserveProxyObj\<close> and the free function \<^verbatim>\<open>Reserve\<close> that makes one.\<close>

datatype ReserveProxyObj = ReserveProxyObj nat

fun ReserveProxyObj_GetCapacity :: "ReserveProxyObj \<Rightarrow> nat" where
  "ReserveProxyObj_GetCapacity (ReserveProxyObj capacity) = capacity"

definition Reserve_proxy :: "nat \<Rightarrow> ReserveProxyObj" where
  "Reserve_proxy capacity_to_reserve = ReserveProxyObj capacity_to_reserve"

definition GetSize :: "'a SimpleVector \<Rightarrow> nat" where
  "GetSize v = size_field v"

definition GetCapacity :: "'a SimpleVector \<Rightarrow> nat" where
  "GetCapacity v = capacity_field v"

definition IsEmpty :: "'a SimpleVector \<Rightarrow> bool" where
  "IsEmpty v = (GetSize v = 0)"

definition begin_it :: "'a SimpleVector \<Rightarrow> nat" where
  "begin_it v = 0"

definition end_it :: "'a SimpleVector \<Rightarrow> nat" where
  "end_it v = 0 + GetSize v"

text \<open>Writing a buffer back into the owner \<^verbatim>\<open>a_\<close> after a loop has run over it.\<close>

definition with_slots :: "'a SimpleVector \<Rightarrow> 'a list \<Rightarrow> 'a SimpleVector" where
  "with_slots v buf = v\<lparr>a_field := (a_field v)\<lparr>slots := buf\<rparr>\<rparr>"


text \<open>
  An argument of type \<^verbatim>\<open>const Type&\<close>. It refers either to an object outside the
  container's buffer, which the operation cannot change and which is given by its value,
  or to the slot of index \<open>i\<close> of the buffer that the container owns when the call is
  made (\<^verbatim>\<open>v.Insert(v.begin(), v[2])\<close> passes \<open>Element 2\<close>).
\<close>

datatype 'a cref = Outside 'a | Element nat

text \<open>
  Reading the argument when the container, \<open>v0\<close> at the call, has become \<open>v\<close>: a
  reference to a slot reads what that slot holds now, as long as the container still owns
  the block it owned at the call; \<open>None\<close> when that block has been released, or when
  the block has no slot of that index.
\<close>

definition deref :: "'a SimpleVector \<Rightarrow> 'a SimpleVector \<Rightarrow> 'a cref \<Rightarrow> 'a option" where
  "deref v0 v r =
     (case r of
        Outside x \<Rightarrow> Some x
      | Element i \<Rightarrow>
          (if raw_ptr (a_field v) = raw_ptr (a_field v0) \<and> i < length (slots (a_field v))
           then Some (ArrayPtr_index (a_field v) i) else None))"

subsection \<open>Constructors\<close>

text \<open>\<^verbatim>\<open>SimpleVector() noexcept = default\<close>.\<close>

definition SimpleVector_default :: "'a SimpleVector" where
  "SimpleVector_default = \<lparr>a_field = ArrayPtr_null, size_field = 0, capacity_field = 0\<rparr>"

text \<open>\<^verbatim>\<open>SimpleVector(size_t size, const Type& value)\<close>. A constructor that throws
  leaves no object behind, and the allocator as it was.\<close>

definition SimpleVector_fill ::
  "'a Type_ops \<Rightarrow> allocator \<Rightarrow> nat \<Rightarrow> 'a \<Rightarrow> error + ('a SimpleVector \<times> allocator)" where
  "SimpleVector_fill T m size' value' =
     (case ArrayPtr_new T m size' of
        Inl e \<Rightarrow> Inl e
      | Inr (a, m1) \<Rightarrow>
          Inr (\<lparr>a_field = a\<lparr>slots := std_fill (slots a) 0 (0 + size') value'\<rparr>,
                size_field = size', capacity_field = size'\<rparr>, m1))"

text \<open>\<^verbatim>\<open>explicit SimpleVector(size_t size) : SimpleVector(size, Type{})\<close>.\<close>

definition SimpleVector_sized ::
  "'a Type_ops \<Rightarrow> allocator \<Rightarrow> nat \<Rightarrow> error + ('a SimpleVector \<times> allocator)" where
  "SimpleVector_sized T m size' = SimpleVector_fill T m size' (Type_default T)"

text \<open>\<^verbatim>\<open>SimpleVector(std::initializer_list<Type> init)\<close>.\<close>

definition SimpleVector_init ::
  "'a Type_ops \<Rightarrow> allocator \<Rightarrow> 'a list \<Rightarrow> error + ('a SimpleVector \<times> allocator)" where
  "SimpleVector_init T m init =
     (case ArrayPtr_new T m (length init) of
        Inl e \<Rightarrow> Inl e
      | Inr (a, m1) \<Rightarrow>
          Inr (\<lparr>a_field = a\<lparr>slots := std_copy init 0 (length init) (slots a) 0\<rparr>,
                size_field = length init, capacity_field = length init\<rparr>, m1))"

text \<open>\<^verbatim>\<open>SimpleVector(const SimpleVector& other)\<close>.\<close>

definition SimpleVector_copy ::
  "'a Type_ops \<Rightarrow> allocator \<Rightarrow> 'a SimpleVector \<Rightarrow> error + ('a SimpleVector \<times> allocator)" where
  "SimpleVector_copy T m other =
     (case ArrayPtr_new T m (GetCapacity other) of
        Inl e \<Rightarrow> Inl e
      | Inr (a, m1) \<Rightarrow>
          Inr (\<lparr>a_field = a\<lparr>slots := std_copy (slots (a_field other)) (begin_it other)
                                             (end_it other) (slots a) 0\<rparr>,
                size_field = GetSize other, capacity_field = GetCapacity other\<rparr>, m1))"

text \<open>\<^verbatim>\<open>SimpleVector(SimpleVector&& other) noexcept\<close>. The result is the new container,
  \<open>other\<close> after the call and the allocator. (The constructor is \<^verbatim>\<open>noexcept\<close>, so the
  failed allocation ends the program.)\<close>

definition SimpleVector_move ::
  "'a Type_ops \<Rightarrow> allocator \<Rightarrow> 'a SimpleVector \<Rightarrow>
     error + ('a SimpleVector \<times> 'a SimpleVector \<times> allocator)" where
  "SimpleVector_move T m other =
     (case ArrayPtr_new T m (GetCapacity other) of
        Inl e \<Rightarrow> Inl e
      | Inr (a, m1) \<Rightarrow>
          (let (other_buf, buf) = std_copy_move (moved_from T) (slots (a_field other))
                                    (begin_it other) (end_it other) (slots a) 0
           in Inr (\<lparr>a_field = a\<lparr>slots := buf\<rparr>,
                     size_field = GetSize other, capacity_field = GetCapacity other\<rparr>,
                   (with_slots other other_buf)\<lparr>size_field := 0, capacity_field := 0\<rparr>,
                   m1)))"

text \<open>\<^verbatim>\<open>explicit SimpleVector(const ReserveProxyObj obj)\<close>.\<close>

definition SimpleVector_reserved ::
  "'a Type_ops \<Rightarrow> allocator \<Rightarrow> ReserveProxyObj \<Rightarrow> error + ('a SimpleVector \<times> allocator)" where
  "SimpleVector_reserved T m obj =
     (case ArrayPtr_new T m (ReserveProxyObj_GetCapacity obj) of
        Inl e \<Rightarrow> Inl e
      | Inr (a, m1) \<Rightarrow>
          Inr (\<lparr>a_field = a, size_field = 0,
                capacity_field = ReserveProxyObj_GetCapacity obj\<rparr>, m1))"

subsection \<open>Operations on one container\<close>

text \<open>
  An operation that can fail returns \<open>Inl\<close> of the error and of the state in which it
  stopped (the container, and the allocator when the operation uses it), or \<open>Inr\<close> of
  what it returns and the state after it.
\<close>

definition Clear :: "'a SimpleVector \<Rightarrow> 'a SimpleVector" where
  "Clear v = v\<lparr>size_field := 0\<rparr>"

definition Resize ::
  "'a Type_ops \<Rightarrow> allocator \<Rightarrow> 'a SimpleVector \<Rightarrow> nat \<Rightarrow>
     (error \<times> 'a SimpleVector \<times> allocator) + ('a SimpleVector \<times> allocator)" where
  "Resize T m v new_size =
     (if new_size \<le> GetCapacity v then
        (let v1 = (if new_size > GetSize v
                   then with_slots v (std_fill (slots (a_field v)) (begin_it v + GetSize v)
                                        (begin_it v + new_size) (Type_default T))
                   else v)
         in Inr (v1\<lparr>size_field := new_size\<rparr>, m))
      else
        (let new_capacity = max (size_t (GetCapacity v * 2)) new_size in
         case ArrayPtr_new T m new_capacity of
           Inl e \<Rightarrow> Inl (e, v, m)
         | Inr (new_a, m1) \<Rightarrow>
             (let (old_buf, buf) = std_copy_move (moved_from T) (slots (a_field v))
                                     (begin_it v) (end_it v) (slots new_a) 0;
                  buf = std_fill buf (0 + GetSize v) (0 + new_size) (Type_default T);
                  (a, new_a) = ArrayPtr_swap ((a_field v)\<lparr>slots := old_buf\<rparr>)
                                             (new_a\<lparr>slots := buf\<rparr>);
                  v1 = v\<lparr>a_field := a, capacity_field := new_capacity\<rparr>;
                  m2 = ArrayPtr_delete m1 new_a
              in Inr (v1\<lparr>size_field := new_size\<rparr>, m2))))"

definition ResizeForOneElement ::
  "'a Type_ops \<Rightarrow> allocator \<Rightarrow> 'a SimpleVector \<Rightarrow>
     (error \<times> 'a SimpleVector \<times> allocator) + ('a SimpleVector \<times> allocator)" where
  "ResizeForOneElement T m v =
     (if GetSize v = GetCapacity v then Resize T m v (size_t (GetSize v + 1))
      else Inr (v\<lparr>size_field := size_t (size_field v + 1)\<rparr>, m))"

definition GetPosToInsert ::
  "'a Type_ops \<Rightarrow> allocator \<Rightarrow> 'a SimpleVector \<Rightarrow> nat \<Rightarrow>
     (error \<times> 'a SimpleVector \<times> allocator) + (nat \<times> 'a SimpleVector \<times> allocator)" where
  "GetPosToInsert T m v pos =
     (let distance_to_pos = pos - begin_it v in
      case ResizeForOneElement T m v of
        Inl e \<Rightarrow> Inl e
      | Inr (v1, m1) \<Rightarrow>
          (let pos_to_insert = begin_it v1 + distance_to_pos;
               v2 = (if GetSize v1 > 1
                     then with_slots v1 (std_copy_backward_move_within (moved_from T)
                            (slots (a_field v1)) pos_to_insert (end_it v1 - 1) (end_it v1))
                     else v1)
           in Inr (pos_to_insert, v2, m1)))"

definition Reserve ::
  "'a Type_ops \<Rightarrow> allocator \<Rightarrow> 'a SimpleVector \<Rightarrow> nat \<Rightarrow>
     (error \<times> 'a SimpleVector \<times> allocator) + ('a SimpleVector \<times> allocator)" where
  "Reserve T m v new_capacity =
     (if new_capacity > GetCapacity v then
        (case ArrayPtr_new T m new_capacity of
           Inl e \<Rightarrow> Inl (e, v, m)
         | Inr (new_a, m1) \<Rightarrow>
             (let buf = std_copy (slots (a_field v)) (begin_it v) (end_it v) (slots new_a) 0;
                  (a, new_a) = ArrayPtr_swap (a_field v) (new_a\<lparr>slots := buf\<rparr>);
                  m2 = ArrayPtr_delete m1 new_a
              in Inr (v\<lparr>a_field := a, capacity_field := new_capacity\<rparr>, m2)))
      else Inr (v, m))"

text \<open>\<^verbatim>\<open>void PushBack(const Type& item)\<close>. The item is read in the assignment
  \<^verbatim>\<open>*(end() - 1) = item\<close>, after \<^verbatim>\<open>ResizeForOneElement\<close>. The overload for
  \<^verbatim>\<open>Type&&\<close> does the same to the container and leaves its argument moved from.\<close>

definition PushBack ::
  "'a Type_ops \<Rightarrow> allocator \<Rightarrow> 'a SimpleVector \<Rightarrow> 'a cref \<Rightarrow>
     (error \<times> 'a SimpleVector \<times> allocator) + ('a SimpleVector \<times> allocator)" where
  "PushBack T m v item =
     (case ResizeForOneElement T m v of
        Inl e \<Rightarrow> Inl e
      | Inr (v1, m1) \<Rightarrow>
          (case deref v v1 item of
             None \<Rightarrow> Inl (DanglingReference, v1, m1)
           | Some x \<Rightarrow>
               Inr (with_slots v1 ((slots (a_field v1))[end_it v1 - 1 := x]), m1)))"

text \<open>\<^verbatim>\<open>Iterator Insert(ConstIterator pos, const Type& value)\<close>. With iterators as
  distances from \<^verbatim>\<open>begin()\<close>, the first half of the assertion is \<open>begin_it v \<le> pos\<close>.
  The value is read in the assignment \<^verbatim>\<open>*pos_to_insert = value\<close>, after
  \<^verbatim>\<open>GetPosToInsert\<close> has grown the buffer and shifted the elements. The overload for
  \<^verbatim>\<open>Type&&\<close> does the same to the container.\<close>

definition Insert ::
  "'a Type_ops \<Rightarrow> allocator \<Rightarrow> 'a SimpleVector \<Rightarrow> nat \<Rightarrow> 'a cref \<Rightarrow>
     (error \<times> 'a SimpleVector \<times> allocator) + (nat \<times> 'a SimpleVector \<times> allocator)" where
  "Insert T m v pos value' =
     (if \<not> (pos \<ge> begin_it v \<and> pos \<le> end_it v) then Inl (AssertionFailed, v, m)
      else
        (case GetPosToInsert T m v pos of
           Inl e \<Rightarrow> Inl e
         | Inr (pos_to_insert, v1, m1) \<Rightarrow>
             (case deref v v1 value' of
                None \<Rightarrow> Inl (DanglingReference, v1, m1)
              | Some x \<Rightarrow>
                  Inr (pos_to_insert,
                       with_slots v1 ((slots (a_field v1))[pos_to_insert := x]), m1))))"

definition PopBack :: "'a SimpleVector \<Rightarrow> (error \<times> 'a SimpleVector) + 'a SimpleVector" where
  "PopBack v =
     (if \<not> (\<not> IsEmpty v) then Inl (AssertionFailed, v)
      else Inr (v\<lparr>size_field := size_t_pred (size_field v)\<rparr>))"

definition Erase ::
  "'a Type_ops \<Rightarrow> 'a SimpleVector \<Rightarrow> nat \<Rightarrow>
     (error \<times> 'a SimpleVector) + (nat \<times> 'a SimpleVector)" where
  "Erase T v pos =
     (if \<not> (pos \<ge> begin_it v \<and> pos < end_it v) then Inl (AssertionFailed, v)
      else
        (let distance_to_pos = pos - begin_it v;
             pos_to_erase = begin_it v + distance_to_pos;
             v1 = with_slots v (std_copy_move_within (moved_from T) (slots (a_field v))
                                  (pos_to_erase + 1) (end_it v) pos_to_erase)
         in Inr (pos_to_erase, v1\<lparr>size_field := size_t_pred (size_field v1)\<rparr>)))"

text \<open>\<^verbatim>\<open>Type& operator[](size_t index) noexcept\<close> and \<^verbatim>\<open>Type& At(size_t index)\<close>; the
  reference returned is given by the value it refers to. Neither changes the container.\<close>

definition subscript :: "'a SimpleVector \<Rightarrow> nat \<Rightarrow> error + 'a" where
  "subscript v index = 
     (if \<not> (index < GetSize v) then Inl AssertionFailed
      else Inr (ArrayPtr_index (a_field v) index))"

definition At :: "'a SimpleVector \<Rightarrow> nat \<Rightarrow> error + 'a" where
  "At v index =
     (if index \<ge> GetSize v then Inl OutOfRange
      else Inr (ArrayPtr_index (a_field v) index))"

subsection \<open>Operations on two containers\<close>

text \<open>\<^verbatim>\<open>void swap(SimpleVector& other) noexcept\<close>: the pair is \<^verbatim>\<open>*this\<close> and \<open>other\<close>
  after the call.\<close>

definition swap :: "'a SimpleVector \<Rightarrow> 'a SimpleVector \<Rightarrow> 'a SimpleVector \<times> 'a SimpleVector" where
  "swap v other =
     (let (a, other_a) = ArrayPtr_swap (a_field v) (a_field other)
      in (v\<lparr>a_field := a, size_field := size_field other,
             capacity_field := capacity_field other\<rparr>,
          other\<lparr>a_field := other_a, size_field := size_field v,
                 capacity_field := capacity_field v\<rparr>))"

text \<open>
  Assignment and comparison test whether their two operands are the same object
  (\<^verbatim>\<open>this != &rhs\<close>, \<^verbatim>\<open>&lhs == &rhs\<close>). The containers of a program therefore live in a
  store, a function from object addresses to containers, and these two operations take
  the addresses of their operands.
\<close>

type_synonym 'a store = "nat \<Rightarrow> 'a SimpleVector"

text \<open>\<^verbatim>\<open>SimpleVector& operator=(const SimpleVector& rhs)\<close>. The temporary \<^verbatim>\<open>rhs_copy\<close>
  is destroyed at the end of its block, releasing the buffer that \<^verbatim>\<open>swap\<close> gave it.\<close>

definition operator_assign ::
  "'a Type_ops \<Rightarrow> allocator \<Rightarrow> 'a store \<Rightarrow> nat \<Rightarrow> nat \<Rightarrow>
     (error \<times> 'a store \<times> allocator) + ('a store \<times> allocator)" where
  "operator_assign T m s this rhs =
     (if this \<noteq> rhs then
        (if IsEmpty (s rhs) then Inr (s(this := Clear (s this)), m)
         else
           (case SimpleVector_copy T m (s rhs) of
              Inl e \<Rightarrow> Inl (e, s, m)
            | Inr (rhs_copy, m1) \<Rightarrow>
                (let (v, rhs_copy) = swap (s this) rhs_copy;
                     m2 = ArrayPtr_delete m1 (a_field rhs_copy)
                 in Inr (s(this := v), m2))))
      else Inr (s, m))"

text \<open>\<^verbatim>\<open>operator==\<close> on two containers of the store.\<close>

definition operator_eq :: "'a store \<Rightarrow> nat \<Rightarrow> nat \<Rightarrow> bool" where
  "operator_eq s lhs rhs =
     (lhs = rhs \<or> (GetSize (s lhs) = GetSize (s rhs)
        \<and> std_equal (slots (a_field (s lhs))) (begin_it (s lhs)) (end_it (s lhs))
             (slots (a_field (s rhs))) (begin_it (s rhs))))"

section \<open>What a container holds, and when it is well formed\<close>

text \<open>The element sequence of a container: the slots \<open>[0, size)\<close> of its buffer.\<close>

definition elements :: "'a SimpleVector \<Rightarrow> 'a list" where
  "elements v = take (GetSize v) (slots (a_field v))"

text \<open>A container is well formed when its size is at most its capacity, the buffer it
  owns has at least \<open>capacity\<close> slots, and the buffer is one the allocator can have made.
  Every container a program can hold is well formed (\<open>reachable_well_formed\<close> below); a
  container that has been moved from has capacity 0 and still owns its old buffer.\<close>

definition well_formed :: "'a SimpleVector \<Rightarrow> bool" where
  "well_formed v \<longleftrightarrow> GetSize v \<le> GetCapacity v \<and> GetCapacity v \<le> length (slots (a_field v))
            \<and> length (slots (a_field v)) \<le> max_slots"

section \<open>Sequences of operations\<close>

text \<open>Appending the elements of a list one after the other with \<^verbatim>\<open>PushBack\<close>, each
  passed as an object outside the container; the first append that fails ends the run.\<close>

fun PushBack_all ::
  "'a Type_ops \<Rightarrow> allocator \<Rightarrow> 'a SimpleVector \<Rightarrow> 'a list \<Rightarrow>
     (error \<times> 'a SimpleVector \<times> allocator) + ('a SimpleVector \<times> allocator)" where
  "PushBack_all T m v [] = Inr (v, m)"
| "PushBack_all T m v (x # xs) =
     (case PushBack T m v (Outside x) of
        Inl e \<Rightarrow> Inl e
      | Inr (v1, m1) \<Rightarrow> PushBack_all T m1 v1 xs)"

text \<open>
  The containers a program can hold: what a constructor returns, and what a public
  operation returns or leaves behind when it is applied to such containers, in whatever
  state the allocator is. (An operation that fails on an allocation or an assertion leaves
  its operands as they were; what follows a dangling reference is no state of a program.)
\<close>

inductive reachable :: "'a Type_ops \<Rightarrow> 'a SimpleVector \<Rightarrow> bool" for T :: "'a Type_ops" where
  r_default: "reachable T SimpleVector_default"
| r_fill: "SimpleVector_fill T m n x = Inr (v, m') \<Longrightarrow> reachable T v"
| r_sized: "SimpleVector_sized T m n = Inr (v, m') \<Longrightarrow> reachable T v"
| r_init: "SimpleVector_init T m init = Inr (v, m') \<Longrightarrow> reachable T v"
| r_reserved: "SimpleVector_reserved T m obj = Inr (v, m') \<Longrightarrow> reachable T v"
| r_copy: "reachable T other \<Longrightarrow> SimpleVector_copy T m other = Inr (v, m') \<Longrightarrow> reachable T v"
| r_move: "reachable T other \<Longrightarrow> SimpleVector_move T m other = Inr (v, other', m')
    \<Longrightarrow> reachable T v"
| r_moved_from: "reachable T other \<Longrightarrow> SimpleVector_move T m other = Inr (v, other', m')
    \<Longrightarrow> reachable T other'"
| r_PushBack: "reachable T v \<Longrightarrow> PushBack T m v r = Inr (v', m') \<Longrightarrow> reachable T v'"
| r_Insert: "reachable T v \<Longrightarrow> Insert T m v pos r = Inr (p, v', m') \<Longrightarrow> reachable T v'"
| r_Erase: "reachable T v \<Longrightarrow> Erase T v pos = Inr (p, v') \<Longrightarrow> reachable T v'"
| r_PopBack: "reachable T v \<Longrightarrow> PopBack v = Inr v' \<Longrightarrow> reachable T v'"
| r_Resize: "reachable T v \<Longrightarrow> Resize T m v n = Inr (v', m') \<Longrightarrow> reachable T v'"
| r_Reserve: "reachable T v \<Longrightarrow> Reserve T m v n = Inr (v', m') \<Longrightarrow> reachable T v'"
| r_Clear: "reachable T v \<Longrightarrow> reachable T (Clear v)"
| r_swap: "reachable T v \<Longrightarrow> reachable T other \<Longrightarrow> swap v other = (v', other')
    \<Longrightarrow> reachable T v'"
| r_swapped: "reachable T v \<Longrightarrow> reachable T other \<Longrightarrow> swap v other = (v', other')
    \<Longrightarrow> reachable T other'"
| r_assign: "reachable T (s this) \<Longrightarrow> reachable T (s rhs)
    \<Longrightarrow> operator_assign T m s this rhs = Inr (s', m') \<Longrightarrow> reachable T (s' this)"

code_pred reachable .

section \<open>Concrete inputs\<close>

text \<open>\<^verbatim>\<open>Type = int\<close>: \<^verbatim>\<open>int{}\<close> is 0 and moving an \<^verbatim>\<open>int\<close> copies it.\<close>

definition int_ops :: "int Type_ops" where
  "int_ops = \<lparr>Type_default = 0, moved_from = (\<lambda>x. x)\<rparr>"

text \<open>An allocator with 1000 free slots whose next block gets the address 1.\<close>

definition mem0 :: allocator where
  "mem0 = \<lparr>next_addr = 1, avail = 1000\<rparr>"

text \<open>The container \<open>{1, 2, 3}\<close> as \<^verbatim>\<open>SimpleVector<int>{1, 2, 3}\<close> leaves it when it is
  constructed with \<open>mem0\<close>, and the allocator after that construction.\<close>

definition vec123 :: "int SimpleVector" where
  "vec123 = \<lparr>a_field = \<lparr>raw_ptr = 1, slots = [1, 2, 3]\<rparr>, size_field = 3, capacity_field = 3\<rparr>"

definition mem1 :: allocator where
  "mem1 = \<lparr>next_addr = 2, avail = 997\<rparr>"

text \<open>The container \<open>{1, 2, 3}\<close> after \<^verbatim>\<open>Reserve(6)\<close>: block 2 with six slots, three
  of them live; and the allocator after that call.\<close>

definition vec123_cap6 :: "int SimpleVector" where
  "vec123_cap6 = \<lparr>a_field = \<lparr>raw_ptr = 2, slots = [1, 2, 3, 0, 0, 0]\<rparr>, size_field = 3,
                   capacity_field = 6\<rparr>"

definition mem2 :: allocator where
  "mem2 = \<lparr>next_addr = 3, avail = 994\<rparr>"

text \<open>A store with the container \<open>{1, 2, 3}\<close> at address 1 and default-constructed
  containers everywhere else, and an allocator with no free slot left.\<close>

definition store0 :: "int store" where
  "store0 = (\<lambda>a. SimpleVector_default)(1 := vec123)"

definition mem_full :: allocator where
  "mem_full = \<lparr>next_addr = 2, avail = 0\<rparr>"

section \<open>What the loops compute\<close>

text \<open>Each loop keeps the length of the buffer it writes, and each slot of the result is
  given in closed form.\<close>

lemma length_std_fill: "length (std_fill buf first last' v) = length buf"
  by (induction buf first last' v rule: std_fill.induct) (simp add: std_fill.simps)

lemma nth_std_fill:
  "i < length buf \<Longrightarrow>
   std_fill buf first last' v ! i = (if first \<le> i \<and> i < last' then v else buf ! i)"
proof (induction buf first last' v rule: std_fill.induct)
  case (1 buf first last' v)
  show ?case
  proof (cases "first < last'")
    case True
    with 1 show ?thesis
      by (subst std_fill.simps) (auto simp: nth_list_update)
  next
    case False
    then show ?thesis by (subst std_fill.simps) auto
  qed
qed

lemma length_std_copy: "length (std_copy src first last' dst d) = length dst"
  by (induction src first last' dst d rule: std_copy.induct) (simp add: std_copy.simps)

lemma nth_std_copy:
  "i < length dst \<Longrightarrow>
   std_copy src first last' dst d ! i =
     (if d \<le> i \<and> i < d + (last' - first) then src ! (first + i - d) else dst ! i)"
proof (induction src first last' dst d rule: std_copy.induct)
  case (1 src first last' dst d)
  show ?case
  proof (cases "first < last'")
    case True
    with 1 show ?thesis
      by (subst std_copy.simps) (auto simp: nth_list_update)
  next
    case False
    then show ?thesis by (subst std_copy.simps) auto
  qed
qed

lemma length_std_copy_move:
  "length (fst (std_copy_move mv src first last' dst d)) = length src"
  "length (snd (std_copy_move mv src first last' dst d)) = length dst"
  by (induction mv src first last' dst d rule: std_copy_move.induct; simp add: std_copy_move.simps)+

lemma nth_snd_std_copy_move:
  "i < length dst \<Longrightarrow>
   snd (std_copy_move mv src first last' dst d) ! i =
     (if d \<le> i \<and> i < d + (last' - first) then src ! (first + i - d) else dst ! i)"
proof (induction mv src first last' dst d rule: std_copy_move.induct)
  case (1 mv src first last' dst d)
  show ?case
  proof (cases "first < last'")
    case True
    with 1 show ?thesis
      by (subst std_copy_move.simps) (auto simp: nth_list_update)
  next
    case False
    then show ?thesis by (subst std_copy_move.simps) auto
  qed
qed

lemma nth_fst_std_copy_move:
  "i < length src \<Longrightarrow>
   fst (std_copy_move mv src first last' dst d) ! i =
     (if first \<le> i \<and> i < last' then mv (src ! i) else src ! i)"
proof (induction mv src first last' dst d rule: std_copy_move.induct)
  case (1 mv src first last' dst d)
  show ?case
  proof (cases "first < last'")
    case True
    with 1 show ?thesis
      by (subst std_copy_move.simps) (auto simp: nth_list_update Suc_le_eq le_less)
  next
    case False
    then show ?thesis by (subst std_copy_move.simps) auto
  qed
qed

lemma length_std_copy_move_within:
  "length (std_copy_move_within mv buf first last' d) = length buf"
  by (induction mv buf first last' d rule: std_copy_move_within.induct)
     (simp add: std_copy_move_within.simps)

lemma nth_std_copy_move_within:
  "i < length buf \<Longrightarrow> last' \<le> length buf \<Longrightarrow>
   std_copy_move_within mv buf (Suc d) last' d ! i =
     (if d \<le> i \<and> Suc i < last' then buf ! Suc i
      else if Suc d < last' \<and> Suc i = last' then mv (buf ! i) else buf ! i)"
proof (induction mv buf "Suc d" last' d arbitrary: rule: std_copy_move_within.induct)
  case (1 mv buf last' d)
  show ?case
  proof (cases "Suc d < last'")
    case True
    with 1 show ?thesis
      by (subst std_copy_move_within.simps) (auto simp: nth_list_update)
  next
    case False
    then show ?thesis by (subst std_copy_move_within.simps) auto
  qed
qed

lemma length_std_copy_backward_move_within:
  "length (std_copy_backward_move_within mv buf first last' d) = length buf"
  by (induction mv buf first last' d rule: std_copy_backward_move_within.induct)
     (simp add: std_copy_backward_move_within.simps)

lemma nth_std_copy_backward_move_within:
  "i < length buf \<Longrightarrow> last' < length buf \<Longrightarrow>
   std_copy_backward_move_within mv buf first last' (Suc last') ! i =
     (if first < last' \<and> i = first then mv (buf ! i)
      else if first < i \<and> i \<le> last' then buf ! (i - 1) else buf ! i)"
proof (induction mv buf first last' "Suc last'" arbitrary: rule: std_copy_backward_move_within.induct)
  case (1 mv buf first last')
  show ?case
  proof (cases "first < last'")
    case True
    with 1 show ?thesis
      by (subst std_copy_backward_move_within.simps) (auto simp: nth_list_update)
  next
    case False
    then show ?thesis by (subst std_copy_backward_move_within.simps) auto
  qed
qed

section \<open>What the operations do to a well-formed container\<close>

lemma size_t_id: "n < 2 ^ 64 \<Longrightarrow> size_t n = n"
  by (simp add: size_t_def)

lemma wf_bounds:
  assumes "well_formed v"
  shows "GetSize v \<le> GetCapacity v" "GetCapacity v \<le> length (slots (a_field v))"
    "length (slots (a_field v)) \<le> max_slots"
    "size_t (GetCapacity v * 2) = GetCapacity v * 2"
    "size_t (GetSize v + 1) = GetSize v + 1"
  using assms by (auto simp: well_formed_def max_slots_def intro!: size_t_id)

lemma take_std_fill:
  "n \<le> length buf \<Longrightarrow> k \<le> n \<Longrightarrow> take n (std_fill buf k n d) = take k buf @ replicate (n - k) d"
  by (rule nth_equalityI) (auto simp: length_std_fill nth_std_fill nth_append)

lemma Resize_fit:
  assumes "well_formed v" and "n \<le> GetCapacity v" and "Resize T m v n = Inr (v', m')"
  shows "m' = m \<and> GetSize v' = n \<and> GetCapacity v' = GetCapacity v
    \<and> raw_ptr (a_field v') = raw_ptr (a_field v)
    \<and> length (slots (a_field v')) = length (slots (a_field v))
    \<and> elements v' = take n (elements v) @ replicate (n - GetSize v) (Type_default T)
    \<and> well_formed v'"
proof -
  note b = wf_bounds [OF assms(1)]
  show ?thesis
  proof (cases "GetSize v < n")
    case True
    with assms b show ?thesis
      by (auto simp: Resize_def Let_def with_slots_def GetSize_def GetCapacity_def well_formed_def
          elements_def begin_it_def length_std_fill take_std_fill)
  next
    case False
    with assms b show ?thesis
      by (auto simp: Resize_def Let_def with_slots_def GetSize_def GetCapacity_def well_formed_def
          elements_def min_def)
  qed
qed

text \<open>The buffer that the growth branch of Resize builds.\<close>

lemma grown_buffer:
  assumes "sz \<le> length buf" "sz \<le> n" "n \<le> nc"
  shows "std_fill (snd (std_copy_move mv buf 0 sz (replicate nc d) 0)) sz n d
         = take sz buf @ replicate (nc - sz) d"
  using assms
  by (intro nth_equalityI)
     (auto simp: length_std_fill nth_std_fill length_std_copy_move nth_snd_std_copy_move
        nth_append)

lemma Resize_grow:
  assumes "well_formed v" and "GetCapacity v < n" and "Resize T m v n = Inr (v', m')"
  shows "can_alloc m (max (GetCapacity v * 2) n) \<and> GetSize v' = n
    \<and> GetCapacity v' = max (GetCapacity v * 2) n
    \<and> raw_ptr (a_field v') = next_addr m
    \<and> slots (a_field v') = elements v @ replicate (GetCapacity v' - GetSize v) (Type_default T)
    \<and> next_addr m' = Suc (next_addr m)
    \<and> avail m' = avail m - GetCapacity v' + length (slots (a_field v))"
proof -
  note b = wf_bounds [OF assms(1)]
  let ?nc = "max (GetCapacity v * 2) n"
  from assms(3) b assms(2) have ok: "can_alloc m ?nc"
    by (auto simp: Resize_def Let_def ArrayPtr_new_def split: if_splits)
  obtain old_buf buf where cm: "std_copy_move (moved_from T) (slots (a_field v)) 0 (GetSize v)
      (replicate ?nc (Type_default T)) 0 = (old_buf, buf)"
    by (cases "std_copy_move (moved_from T) (slots (a_field v)) 0 (GetSize v)
      (replicate ?nc (Type_default T)) 0") 
  have len_old: "length old_buf = length (slots (a_field v))"
    using length_std_copy_move(1) [of "moved_from T" "slots (a_field v)" 0 "GetSize v"
        "replicate ?nc (Type_default T)" 0] cm by simp
  have gb: "std_fill buf (GetSize v) n (Type_default T)
      = take (GetSize v) (slots (a_field v)) @ replicate (?nc - GetSize v) (Type_default T)"
    using grown_buffer [of "GetSize v" "slots (a_field v)" n ?nc "moved_from T" "Type_default T"]
      cm b assms(2) by simp
  from assms(3) ok b assms(2) cm len_old gb show ?thesis
    by (simp add: Resize_def Let_def ArrayPtr_new_def ArrayPtr_swap_def ArrayPtr_delete_def
        begin_it_def end_it_def elements_def)
      (auto simp: GetSize_def GetCapacity_def)
qed


lemma Resize_grow_well_formed:
  assumes "well_formed v" and "GetCapacity v < n" and "Resize T m v n = Inr (v', m')"
  shows "well_formed v' \<and> length (slots (a_field v')) = GetCapacity v'
    \<and> elements v' = elements v @ replicate (n - GetSize v) (Type_default T)"
proof -
  note b = wf_bounds [OF assms(1)]
  note g = Resize_grow [OF assms]
  have le: "length (elements v) = GetSize v"
    using b by (simp add: elements_def)
  have len: "length (slots (a_field v')) = GetCapacity v'"
    using g le b assms(2) by simp
  have "elements v' = take n (elements v @ replicate (GetCapacity v' - GetSize v) (Type_default T))"
    using g by (simp add: elements_def)
  also have "\<dots> = elements v @ replicate (n - GetSize v) (Type_default T)"
    using g le b assms(2) by (simp add: min_def)
  finally have el: "elements v' = elements v @ replicate (n - GetSize v) (Type_default T)" .
  have "well_formed v'"
    using g len by (simp add: well_formed_def can_alloc_def)
  with len el show ?thesis by simp
qed

lemma Resize_Inl:
  assumes "well_formed v" and "Resize T m v n = Inl e"
  shows "GetCapacity v < n \<and> \<not> can_alloc m (max (GetCapacity v * 2) n) \<and> e = (BadAlloc, v, m)"
  using assms(2) wf_bounds [OF assms(1)]
  by (auto simp: Resize_def Let_def ArrayPtr_new_def split: if_splits prod.splits)

lemma Resize_returns:
  assumes "well_formed v" and "n \<le> GetCapacity v \<or> can_alloc m (max (GetCapacity v * 2) n)"
  shows "\<exists>v' m'. Resize T m v n = Inr (v', m')"
proof (cases "Resize T m v n")
  case (Inl e)
  with Resize_Inl [OF assms(1) Inl] assms(2) show ?thesis by auto
next
  case (Inr r)
  then show ?thesis by (cases r) simp
qed

lemma ResizeForOneElement_Inl:
  assumes "well_formed v" and "ResizeForOneElement T m v = Inl e"
  shows "GetSize v = GetCapacity v
    \<and> \<not> can_alloc m (max (GetCapacity v * 2) (GetSize v + 1)) \<and> e = (BadAlloc, v, m)"
  using assms(2) wf_bounds [OF assms(1)] Resize_Inl [OF assms(1), of T m "GetSize v + 1" e]
  by (auto simp: ResizeForOneElement_def split: if_splits)

lemma ResizeForOneElement_returns:
  assumes "well_formed v"
    and "GetSize v < GetCapacity v \<or> can_alloc m (max (GetCapacity v * 2) (GetSize v + 1))"
  shows "\<exists>v' m'. ResizeForOneElement T m v = Inr (v', m')"
proof (cases "ResizeForOneElement T m v")
  case (Inl e)
  with ResizeForOneElement_Inl [OF assms(1) Inl] assms(2) show ?thesis by auto
next
  case (Inr r)
  then show ?thesis by (cases r) simp
qed

lemma ResizeForOneElement_Inr:
  assumes "well_formed v" and "ResizeForOneElement T m v = Inr (v1, m1)"
  shows "GetSize v1 = GetSize v + 1 \<and> well_formed v1
    \<and> take (GetSize v) (slots (a_field v1)) = elements v
    \<and> GetCapacity v1 = (if GetSize v = GetCapacity v
                         then max (GetCapacity v * 2) (GetSize v + 1) else GetCapacity v)
    \<and> (GetSize v < GetCapacity v \<longrightarrow> a_field v1 = a_field v \<and> m1 = m)
    \<and> (GetSize v = GetCapacity v \<longrightarrow>
          can_alloc m (max (GetCapacity v * 2) (GetSize v + 1))
          \<and> raw_ptr (a_field v1) = next_addr m \<and> next_addr m1 = Suc (next_addr m)
          \<and> length (slots (a_field v1)) = GetCapacity v1
          \<and> avail m1 = avail m - GetCapacity v1 + length (slots (a_field v)))"
proof -
  note b = wf_bounds [OF assms(1)]
  show ?thesis
  proof (cases "GetSize v = GetCapacity v")
    case True
    with assms(2) b have r: "Resize T m v (GetSize v + 1) = Inr (v1, m1)"
      by (simp add: ResizeForOneElement_def)
    have lt: "GetCapacity v < GetSize v + 1" using True by simp
    have le: "length (elements v) = GetSize v"
      using b by (simp add: elements_def)
    from Resize_grow [OF assms(1) lt r] Resize_grow_well_formed [OF assms(1) lt r] True le
    show ?thesis by simp
  next
    case False
    with b have lt: "GetSize v < GetCapacity v" by simp
    with b have "size_t (size_field v + 1) = size_field v + 1"
      by (simp add: GetSize_def)
    with assms(2) False have "v1 = v\<lparr>size_field := size_field v + 1\<rparr>" "m1 = m"
      by (simp_all add: ResizeForOneElement_def)
    with lt b assms(1) show ?thesis
      by (simp add: well_formed_def GetSize_def GetCapacity_def elements_def)
  qed
qed

lemma PushBack_Inl:
  assumes "well_formed v" and "PushBack T m v (Outside x) = Inl e"
  shows "GetSize v = GetCapacity v
    \<and> \<not> can_alloc m (max (GetCapacity v * 2) (GetSize v + 1)) \<and> e = (BadAlloc, v, m)"
  using assms(2) ResizeForOneElement_Inl [OF assms(1), of T m e]
  by (auto simp: PushBack_def deref_def split: sum.splits prod.splits)

lemma PushBack_Inr:
  assumes "well_formed v" and "PushBack T m v (Outside x) = Inr (v', m')"
  shows "GetSize v' = GetSize v + 1 \<and> well_formed v' \<and> elements v' = elements v @ [x]
    \<and> GetCapacity v' = (if GetSize v = GetCapacity v
                         then max (GetCapacity v * 2) (GetSize v + 1) else GetCapacity v)
    \<and> (GetSize v < GetCapacity v \<longrightarrow> raw_ptr (a_field v') = raw_ptr (a_field v) \<and> m' = m
          \<and> length (slots (a_field v')) = length (slots (a_field v)))
    \<and> (GetSize v = GetCapacity v \<longrightarrow>
          can_alloc m (max (GetCapacity v * 2) (GetSize v + 1))
          \<and> raw_ptr (a_field v') = next_addr m \<and> next_addr m' = Suc (next_addr m)
          \<and> length (slots (a_field v')) = GetCapacity v'
          \<and> avail m' = avail m - GetCapacity v' + length (slots (a_field v)))"
proof -
  from assms(2) obtain v1 where r: "ResizeForOneElement T m v = Inr (v1, m')"
    and v': "v' = with_slots v1 ((slots (a_field v1))[end_it v1 - 1 := x])"
    by (auto simp: PushBack_def deref_def split: sum.splits prod.splits)
  note p = ResizeForOneElement_Inr [OF assms(1) r]
  note b1 = wf_bounds(1-3) [of v1]
  have sz: "GetSize v' = GetSize v + 1" "GetCapacity v' = GetCapacity v1"
    "length (slots (a_field v')) = length (slots (a_field v1))"
    "raw_ptr (a_field v') = raw_ptr (a_field v1)"
    using p v' by (simp_all add: with_slots_def GetSize_def GetCapacity_def)
  have wf': "well_formed v'"
    using p sz by (simp add: well_formed_def)
  have "elements v' = take (GetSize v + 1) ((slots (a_field v1))[GetSize v := x])"
    using p v' by (simp add: elements_def with_slots_def end_it_def GetSize_def)
  also have "\<dots> = take (GetSize v) (slots (a_field v1)) @ [x]"
    using p b1 by (simp add: take_Suc_conv_app_nth)
  finally have "elements v' = elements v @ [x]" using p by simp
  with p sz wf' show ?thesis by simp
qed

lemma PushBack_returns:
  assumes "well_formed v"
    and "GetSize v < GetCapacity v \<or> can_alloc m (max (GetCapacity v * 2) (GetSize v + 1))"
  shows "\<exists>v' m'. PushBack T m v (Outside x) = Inr (v', m')"
  using ResizeForOneElement_returns [OF assms, of T]
  by (auto simp: PushBack_def deref_def)

lemma insert_shift_take:
  assumes "pos \<le> n" and "n < length buf"
  shows "take (Suc n) ((std_copy_backward_move_within mv buf pos n (Suc n))[pos := x])
         = take pos (take n buf) @ x # drop pos (take n buf)"
proof (rule nth_equalityI)
  show "length (take (Suc n) ((std_copy_backward_move_within mv buf pos n (Suc n))[pos := x]))
        = length (take pos (take n buf) @ x # drop pos (take n buf))"
    using assms by (simp add: length_std_copy_backward_move_within)
next
  fix i
  assume "i < length (take (Suc n) ((std_copy_backward_move_within mv buf pos n (Suc n))[pos := x]))"
  then have i: "i < Suc n"
    by simp
  consider "i < pos" | "i = pos" | "pos < i" by linarith
  then show "take (Suc n) ((std_copy_backward_move_within mv buf pos n (Suc n))[pos := x]) ! i
             = (take pos (take n buf) @ x # drop pos (take n buf)) ! i"
  proof cases
    case 1
    with i assms show ?thesis
      by (simp add: length_std_copy_backward_move_within nth_std_copy_backward_move_within
          nth_append)
  next
    case 2
    with i assms show ?thesis
      by (simp add: length_std_copy_backward_move_within nth_append)
  next
    case 3
    then have "pos + (i - Suc pos) = i - 1" by simp
    with 3 i assms show ?thesis
      by (simp add: length_std_copy_backward_move_within nth_std_copy_backward_move_within
          nth_append nth_Cons')
  qed
qed

lemma erase_shift_take:
  assumes "pos < n" and "n \<le> length buf"
  shows "take (n - 1) (std_copy_move_within mv buf (Suc pos) n pos)
         = take pos (take n buf) @ drop (Suc pos) (take n buf)"
  using assms
  by (intro nth_equalityI)
     (auto simp: length_std_copy_move_within nth_std_copy_move_within nth_append)

lemma GetPosToInsert_Inr:
  assumes "well_formed v" and "pos \<le> GetSize v"
    and "GetPosToInsert T m v pos = Inr (p, v2, m2)"
  shows "\<exists>v1. ResizeForOneElement T m v = Inr (v1, m2) \<and> p = pos
    \<and> GetSize v2 = GetSize v1 \<and> GetCapacity v2 = GetCapacity v1
    \<and> raw_ptr (a_field v2) = raw_ptr (a_field v1)
    \<and> length (slots (a_field v2)) = length (slots (a_field v1))
    \<and> take (Suc (GetSize v)) ((slots (a_field v2))[pos := x])
        = take pos (elements v) @ x # drop pos (elements v)"
proof -
  from assms(3) obtain v1 where r: "ResizeForOneElement T m v = Inr (v1, m2)"
    and p: "p = pos"
    and v2: "v2 = (if GetSize v1 > 1
                   then with_slots v1 (std_copy_backward_move_within (moved_from T)
                          (slots (a_field v1)) pos (end_it v1 - 1) (end_it v1))
                   else v1)"
    by (auto simp: GetPosToInsert_def Let_def begin_it_def split: sum.splits prod.splits)
  note q = ResizeForOneElement_Inr [OF assms(1) r]
  note b1 = wf_bounds(1-3) [of v1]
  have lt: "GetSize v < length (slots (a_field v1))"
    using q b1 by simp
  have fields: "GetSize v2 = GetSize v1" "GetCapacity v2 = GetCapacity v1"
    "raw_ptr (a_field v2) = raw_ptr (a_field v1)"
    "length (slots (a_field v2)) = length (slots (a_field v1))"
    using v2 by (simp_all add: with_slots_def GetSize_def GetCapacity_def
        length_std_copy_backward_move_within)
  have "take (Suc (GetSize v)) ((slots (a_field v2))[pos := x])
        = take pos (elements v) @ x # drop pos (elements v)"
  proof (cases "GetSize v1 > 1")
    case True
    then have "slots (a_field v2) = std_copy_backward_move_within (moved_from T)
        (slots (a_field v1)) pos (GetSize v) (Suc (GetSize v))"
      using v2 q by (simp add: with_slots_def end_it_def)
    with insert_shift_take [OF assms(2) lt, of "moved_from T" x] q show ?thesis
      by simp
  next
    case False
    with q have z: "GetSize v = 0" by simp
    with assms(2) have "pos = 0" by simp
    with z False v2 lt show ?thesis
      by (cases "slots (a_field v1)") (simp_all add: elements_def)
  qed
  with r p fields show ?thesis by blast
qed

lemma Insert_Inl:
  assumes "well_formed v" and "Insert T m v pos (Outside x) = Inl e"
  shows "(GetSize v < pos \<and> e = (AssertionFailed, v, m))
    \<or> (pos \<le> GetSize v \<and> GetSize v = GetCapacity v
        \<and> \<not> can_alloc m (max (GetCapacity v * 2) (GetSize v + 1)) \<and> e = (BadAlloc, v, m))"
proof (cases "pos \<le> GetSize v")
  case True
  with assms(2) have "ResizeForOneElement T m v = Inl e"
    by (auto simp: Insert_def deref_def GetPosToInsert_def Let_def begin_it_def end_it_def
        split: sum.splits prod.splits)
  from ResizeForOneElement_Inl [OF assms(1) this] True show ?thesis by blast
next
  case False
  with assms(2) show ?thesis
    by (auto simp: Insert_def deref_def begin_it_def end_it_def)
qed

lemma Insert_Inr:
  assumes "well_formed v" and "Insert T m v pos (Outside x) = Inr (p, v', m')"
  shows "pos \<le> GetSize v \<and> p = pos \<and> GetSize v' = GetSize v + 1 \<and> well_formed v'
    \<and> elements v' = take pos (elements v) @ x # drop pos (elements v)
    \<and> GetCapacity v' = (if GetSize v = GetCapacity v
                         then max (GetCapacity v * 2) (GetSize v + 1) else GetCapacity v)
    \<and> (GetSize v < GetCapacity v \<longrightarrow> raw_ptr (a_field v') = raw_ptr (a_field v) \<and> m' = m
          \<and> length (slots (a_field v')) = length (slots (a_field v)))
    \<and> (GetSize v = GetCapacity v \<longrightarrow>
          can_alloc m (max (GetCapacity v * 2) (GetSize v + 1))
          \<and> raw_ptr (a_field v') = next_addr m \<and> next_addr m' = Suc (next_addr m)
          \<and> length (slots (a_field v')) = GetCapacity v'
          \<and> avail m' = avail m - GetCapacity v' + length (slots (a_field v)))"
proof -
  from assms(2) have pos: "pos \<le> GetSize v"
    by (auto simp: Insert_def deref_def begin_it_def end_it_def split: if_splits)
  with assms(2) obtain v2 where g: "GetPosToInsert T m v pos = Inr (p, v2, m')"
    and v': "v' = with_slots v2 ((slots (a_field v2))[p := x])"
    by (auto simp: Insert_def deref_def begin_it_def end_it_def split: sum.splits prod.splits)
  from GetPosToInsert_Inr [OF assms(1) pos g, of x] obtain v1
    where r: "ResizeForOneElement T m v = Inr (v1, m')" and p: "p = pos"
      and f: "GetSize v2 = GetSize v1" "GetCapacity v2 = GetCapacity v1"
        "raw_ptr (a_field v2) = raw_ptr (a_field v1)"
        "length (slots (a_field v2)) = length (slots (a_field v1))"
      and t: "take (Suc (GetSize v)) ((slots (a_field v2))[pos := x])
              = take pos (elements v) @ x # drop pos (elements v)"
    by blast
  note q = ResizeForOneElement_Inr [OF assms(1) r]
  have f': "GetSize v' = GetSize v1" "GetCapacity v' = GetCapacity v1"
    "raw_ptr (a_field v') = raw_ptr (a_field v1)"
    "length (slots (a_field v')) = length (slots (a_field v1))"
    using v' f by (simp_all add: with_slots_def GetSize_def GetCapacity_def)
  have wf': "well_formed v'"
    using q f' by (simp add: well_formed_def)
  have el: "elements v' = take pos (elements v) @ x # drop pos (elements v)"
    using t v' p q f' by (simp add: elements_def with_slots_def)
  from pos p q f' wf' el show ?thesis by simp
qed

lemma Insert_returns:
  assumes "well_formed v" and "pos \<le> GetSize v"
    and "GetSize v < GetCapacity v \<or> can_alloc m (max (GetCapacity v * 2) (GetSize v + 1))"
  shows "\<exists>v' m'. Insert T m v pos (Outside x) = Inr (pos, v', m')"
proof (cases "Insert T m v pos (Outside x)")
  case (Inl e)
  with Insert_Inl [OF assms(1) Inl] assms(2,3) show ?thesis by auto
next
  case (Inr r)
  then obtain p v' m' where "Insert T m v pos (Outside x) = Inr (p, v', m')" by (cases r) auto
  with Insert_Inr [OF assms(1) this] show ?thesis by auto
qed

text \<open>
  An argument that refers to a slot: when the operation returns, it has done what it
  does for an outside object holding the value it read; when it fails, it has failed as it
  does for every outside object, or it has made room and found the reference dangling.
\<close>

lemma PushBack_any_Inr:
  assumes "PushBack T m v r = Inr (v', m')"
  shows "\<exists>x. PushBack T m v (Outside x) = Inr (v', m') \<and> (\<forall>y. r = Outside y \<longrightarrow> x = y)"
proof -
  from assms obtain v1 m1 x where "ResizeForOneElement T m v = Inr (v1, m1)"
    and "deref v v1 r = Some x" and "m' = m1"
    and "v' = with_slots v1 ((slots (a_field v1))[end_it v1 - 1 := x])"
    by (auto simp: PushBack_def split: sum.splits prod.splits option.splits)
  then have "PushBack T m v (Outside x) = Inr (v', m') \<and> (\<forall>y. r = Outside y \<longrightarrow> x = y)"
    by (auto simp: PushBack_def deref_def)
  then show ?thesis ..
qed

lemma PushBack_any_Inl:
  assumes "PushBack T m v r = Inl e"
  shows "(\<forall>x. PushBack T m v (Outside x) = Inl e)
    \<or> (\<exists>i v1 m1. r = Element i \<and> ResizeForOneElement T m v = Inr (v1, m1)
          \<and> deref v v1 r = None \<and> e = (DanglingReference, v1, m1))"
  using assms
  by (cases r)
     (auto simp: PushBack_def deref_def split: sum.splits prod.splits option.splits if_splits)

lemma Insert_any_Inr:
  assumes "Insert T m v pos r = Inr (p, v', m')"
  shows "\<exists>x. Insert T m v pos (Outside x) = Inr (p, v', m') \<and> (\<forall>y. r = Outside y \<longrightarrow> x = y)"
proof -
  from assms have a: "pos \<ge> begin_it v \<and> pos \<le> end_it v"
    by (auto simp: Insert_def split: if_splits)
  with assms obtain v1 m1 x where "GetPosToInsert T m v pos = Inr (p, v1, m1)"
    and "deref v v1 r = Some x" and "m' = m1"
    and "v' = with_slots v1 ((slots (a_field v1))[p := x])"
    by (auto simp: Insert_def split: sum.splits prod.splits option.splits)
  with a have "Insert T m v pos (Outside x) = Inr (p, v', m')
      \<and> (\<forall>y. r = Outside y \<longrightarrow> x = y)"
    by (auto simp: Insert_def deref_def)
  then show ?thesis ..
qed

lemma Insert_any_Inl:
  assumes "Insert T m v pos r = Inl e"
  shows "(\<forall>x. Insert T m v pos (Outside x) = Inl e)
    \<or> (\<exists>i p v1 m1. r = Element i \<and> pos \<le> GetSize v
          \<and> GetPosToInsert T m v pos = Inr (p, v1, m1)
          \<and> deref v v1 r = None \<and> e = (DanglingReference, v1, m1))"
  using assms
  by (cases r)
     (auto simp: Insert_def deref_def begin_it_def end_it_def
        split: sum.splits prod.splits option.splits if_splits)

lemma size_t_pred_pos: "0 < n \<Longrightarrow> size_t_pred n = n - 1"
  by (simp add: size_t_pred_def)

lemma PopBack_eq:
  "PopBack v = (if GetSize v = 0 then Inl (AssertionFailed, v)
                else Inr (v\<lparr>size_field := size_field v - 1\<rparr>))"
  by (simp add: PopBack_def IsEmpty_def GetSize_def size_t_pred_pos)

lemma Erase_Inl:
  "Erase T v pos = Inl e \<longleftrightarrow> GetSize v \<le> pos \<and> e = (AssertionFailed, v)"
  by (auto simp: Erase_def Let_def begin_it_def end_it_def)

lemma Erase_Inr:
  assumes "well_formed v" and "Erase T v pos = Inr (p, v')"
  shows "pos < GetSize v \<and> p = pos \<and> GetSize v' = GetSize v - 1
    \<and> GetCapacity v' = GetCapacity v \<and> raw_ptr (a_field v') = raw_ptr (a_field v)
    \<and> length (slots (a_field v')) = length (slots (a_field v))
    \<and> elements v' = take pos (elements v) @ drop (Suc pos) (elements v)
    \<and> well_formed v'"
proof -
  note b = wf_bounds(1-3) [OF assms(1)]
  from assms(2) have pos: "pos < GetSize v"
    by (auto simp: Erase_def begin_it_def end_it_def split: if_splits)
  then have n: "GetSize v \<le> length (slots (a_field v))" using b by simp
  from assms(2) pos have p: "p = pos"
    and v': "v' = (with_slots v (std_copy_move_within (moved_from T) (slots (a_field v))
                     (Suc pos) (GetSize v) pos))\<lparr>size_field := GetSize v - 1\<rparr>"
    by (auto simp: Erase_def Let_def begin_it_def end_it_def with_slots_def GetSize_def
        size_t_pred_pos)
  have f: "GetSize v' = GetSize v - 1" "GetCapacity v' = GetCapacity v"
    "raw_ptr (a_field v') = raw_ptr (a_field v)"
    "length (slots (a_field v')) = length (slots (a_field v))"
    using v' by (simp_all add: with_slots_def GetSize_def GetCapacity_def
        length_std_copy_move_within)
  have el: "elements v' = take pos (elements v) @ drop (Suc pos) (elements v)"
    using erase_shift_take [OF pos n, of "moved_from T"] v'
    by (simp add: elements_def with_slots_def GetSize_def)
  have "well_formed v'"
    using f b by (simp add: well_formed_def)
  with pos p f el show ?thesis by simp
qed

lemma Erase_returns:
  "pos < GetSize v \<Longrightarrow> \<exists>v'. Erase T v pos = Inr (pos, v')"
  by (simp add: Erase_def Let_def begin_it_def end_it_def)

lemma std_equal_iff:
  "last1 \<le> length xs \<Longrightarrow> first2 + (last1 - first1) \<le> length ys \<Longrightarrow>
   std_equal xs first1 last1 ys first2
     \<longleftrightarrow> take (last1 - first1) (drop first1 xs) = take (last1 - first1) (drop first2 ys)"
proof (induction xs first1 last1 ys first2 rule: std_equal.induct)
  case (1 xs first1 last1 ys first2)
  show ?case
  proof (cases "first1 < last1")
    case True
    then obtain k where k: "last1 - first1 = Suc k" "last1 - Suc first1 = k"
      by (cases "last1 - first1") auto
    have d1: "drop first1 xs = xs ! first1 # drop (Suc first1) xs"
      using True "1.prems" by (simp add: Cons_nth_drop_Suc)
    have d2: "drop first2 ys = ys ! first2 # drop (Suc first2) ys"
      using True "1.prems" k by (simp add: Cons_nth_drop_Suc)
    show ?thesis
    proof (cases "xs ! first1 = ys ! first2")
      case eq: True
      with "1.IH" [OF True eq] "1.prems" True k d1 d2 show ?thesis
        by (subst std_equal.simps) simp
    next
      case False
      with True k d1 d2 show ?thesis
        by (subst std_equal.simps) simp
    qed
  next
    case False
    then show ?thesis by (subst std_equal.simps) simp
  qed
qed

lemma take_std_copy_fresh:
  assumes "n \<le> length src" and "n \<le> length dst"
  shows "take n (std_copy src 0 n dst 0) = take n src"
  using assms by (intro nth_equalityI) (auto simp: length_std_copy nth_std_copy)

lemma take_snd_std_copy_move_fresh:
  assumes "n \<le> length src" and "n \<le> length dst"
  shows "take n (snd (std_copy_move mv src 0 n dst 0)) = take n src"
  using assms
  by (intro nth_equalityI) (auto simp: length_std_copy_move nth_snd_std_copy_move)

lemma std_fill_all: "std_fill (replicate n d) 0 n x = replicate n x"
  by (intro nth_equalityI) (auto simp: length_std_fill nth_std_fill)

lemma well_formed_default: "well_formed SimpleVector_default"
  by (simp add: well_formed_def SimpleVector_default_def ArrayPtr_null_def GetSize_def
      GetCapacity_def)

lemma SimpleVector_fill_eq:
  "SimpleVector_fill T m n x =
     (if can_alloc m n
      then Inr (\<lparr>a_field = \<lparr>raw_ptr = next_addr m, slots = replicate n x\<rparr>,
                 size_field = n, capacity_field = n\<rparr>,
                m\<lparr>next_addr := Suc (next_addr m), avail := avail m - n\<rparr>)
      else Inl BadAlloc)"
  by (simp add: SimpleVector_fill_def ArrayPtr_new_def std_fill_all)

lemma SimpleVector_init_eq:
  "SimpleVector_init T m init =
     (if can_alloc m (length init)
      then Inr (\<lparr>a_field = \<lparr>raw_ptr = next_addr m, slots = init\<rparr>,
                 size_field = length init, capacity_field = length init\<rparr>,
                m\<lparr>next_addr := Suc (next_addr m), avail := avail m - length init\<rparr>)
      else Inl BadAlloc)"
  using take_std_copy_fresh [of "length init" init "replicate (length init) (Type_default T)"]
  by (simp add: SimpleVector_init_def ArrayPtr_new_def length_std_copy)

lemma SimpleVector_reserved_eq:
  "SimpleVector_reserved T m (ReserveProxyObj n) =
     (if can_alloc m n
      then Inr (\<lparr>a_field = \<lparr>raw_ptr = next_addr m, slots = replicate n (Type_default T)\<rparr>,
                 size_field = 0, capacity_field = n\<rparr>,
                m\<lparr>next_addr := Suc (next_addr m), avail := avail m - n\<rparr>)
      else Inl BadAlloc)"
  by (simp add: SimpleVector_reserved_def ArrayPtr_new_def)

lemma well_formed_constructed:
  "SimpleVector_fill T m n x = Inr (v, m') \<Longrightarrow> well_formed v"
  "SimpleVector_sized T m n = Inr (v, m') \<Longrightarrow> well_formed v"
  "SimpleVector_init T m init = Inr (v, m') \<Longrightarrow> well_formed v"
  "SimpleVector_reserved T m obj = Inr (v, m') \<Longrightarrow> well_formed v"
  by (cases obj;
      auto simp: SimpleVector_fill_eq SimpleVector_sized_def SimpleVector_init_eq
        SimpleVector_reserved_eq well_formed_def GetSize_def GetCapacity_def can_alloc_def
        split: if_splits)+

lemma SimpleVector_copy_Inl:
  "SimpleVector_copy T m other = Inl e \<longleftrightarrow> \<not> can_alloc m (GetCapacity other) \<and> e = BadAlloc"
  by (auto simp: SimpleVector_copy_def ArrayPtr_new_def)

lemma SimpleVector_copy_Inr:
  assumes "well_formed other" and "SimpleVector_copy T m other = Inr (v, m')"
  shows "can_alloc m (GetCapacity other) \<and> GetSize v = GetSize other
    \<and> GetCapacity v = GetCapacity other \<and> elements v = elements other
    \<and> raw_ptr (a_field v) = next_addr m \<and> length (slots (a_field v)) = GetCapacity v
    \<and> next_addr m' = Suc (next_addr m) \<and> avail m' = avail m - GetCapacity other
    \<and> well_formed v"
proof -
  note b = wf_bounds(1-3) [OF assms(1)]
  from assms(2) have ok: "can_alloc m (GetCapacity other)"
    by (auto simp: SimpleVector_copy_def ArrayPtr_new_def split: if_splits)
  have t: "take (GetSize other) (std_copy (slots (a_field other)) 0 (GetSize other)
             (replicate (GetCapacity other) (Type_default T)) 0)
           = take (GetSize other) (slots (a_field other))"
    using b by (intro take_std_copy_fresh) simp_all
  from assms(2) ok t b show ?thesis
    by (auto simp: SimpleVector_copy_def ArrayPtr_new_def begin_it_def end_it_def
        elements_def GetSize_def GetCapacity_def length_std_copy well_formed_def can_alloc_def)
qed

lemma SimpleVector_move_Inl:
  "SimpleVector_move T m other = Inl e \<longleftrightarrow> \<not> can_alloc m (GetCapacity other) \<and> e = BadAlloc"
  by (auto simp: SimpleVector_move_def ArrayPtr_new_def Let_def split: prod.splits)

lemma SimpleVector_move_Inr:
  assumes "well_formed other" and "SimpleVector_move T m other = Inr (v, other', m')"
  shows "can_alloc m (GetCapacity other) \<and> GetSize v = GetSize other
    \<and> GetCapacity v = GetCapacity other \<and> elements v = elements other
    \<and> raw_ptr (a_field v) = next_addr m \<and> length (slots (a_field v)) = GetCapacity v
    \<and> next_addr m' = Suc (next_addr m) \<and> avail m' = avail m - GetCapacity other
    \<and> well_formed v
    \<and> GetSize other' = 0 \<and> GetCapacity other' = 0
    \<and> raw_ptr (a_field other') = raw_ptr (a_field other)
    \<and> length (slots (a_field other')) = length (slots (a_field other))
    \<and> well_formed other'"
proof -
  note b = wf_bounds(1-3) [OF assms(1)]
  from assms(2) have ok: "can_alloc m (GetCapacity other)"
    by (auto simp: SimpleVector_move_def ArrayPtr_new_def split: if_splits)
  obtain ob nb where cm: "std_copy_move (moved_from T) (slots (a_field other)) 0 (GetSize other)
      (replicate (GetCapacity other) (Type_default T)) 0 = (ob, nb)"
    by (cases "std_copy_move (moved_from T) (slots (a_field other)) 0 (GetSize other)
      (replicate (GetCapacity other) (Type_default T)) 0")
  have len: "length ob = length (slots (a_field other))" "length nb = GetCapacity other"
    using length_std_copy_move [of "moved_from T" "slots (a_field other)" 0 "GetSize other"
        "replicate (GetCapacity other) (Type_default T)" 0] cm by simp_all
  have t: "take (GetSize other) nb = take (GetSize other) (slots (a_field other))"
    using take_snd_std_copy_move_fresh [of "GetSize other" "slots (a_field other)"
        "replicate (GetCapacity other) (Type_default T)" "moved_from T"] cm b by simp
  from assms(2) ok cm have v: "v = \<lparr>a_field = \<lparr>raw_ptr = next_addr m, slots = nb\<rparr>,
        size_field = GetSize other, capacity_field = GetCapacity other\<rparr>"
    and o': "other' = (with_slots other ob)\<lparr>size_field := 0, capacity_field := 0\<rparr>"
    and m': "m' = m\<lparr>next_addr := Suc (next_addr m), avail := avail m - GetCapacity other\<rparr>"
    by (simp_all add: SimpleVector_move_def ArrayPtr_new_def begin_it_def end_it_def)
  from v o' m' ok t len b show ?thesis
    by (simp add: elements_def GetSize_def GetCapacity_def well_formed_def can_alloc_def
        with_slots_def)
qed

lemma Reserve_Inl:
  "Reserve T m v n = Inl e
     \<longleftrightarrow> GetCapacity v < n \<and> \<not> can_alloc m n \<and> e = (BadAlloc, v, m)"
  by (auto simp: Reserve_def ArrayPtr_new_def Let_def ArrayPtr_swap_def)

lemma Reserve_Inr:
  assumes "well_formed v" and "Reserve T m v n = Inr (v', m')"
  shows "GetSize v' = GetSize v \<and> elements v' = elements v \<and> well_formed v'
    \<and> GetCapacity v' = max (GetCapacity v) n
    \<and> (n \<le> GetCapacity v \<longrightarrow> v' = v \<and> m' = m)
    \<and> (GetCapacity v < n \<longrightarrow> can_alloc m n \<and> raw_ptr (a_field v') = next_addr m
          \<and> next_addr m' = Suc (next_addr m) \<and> length (slots (a_field v')) = n
          \<and> avail m' = avail m - n + length (slots (a_field v)))"
proof (cases "GetCapacity v < n")
  case True
  note b = wf_bounds(1-3) [OF assms(1)]
  from assms(2) True have ok: "can_alloc m n"
    by (auto simp: Reserve_def ArrayPtr_new_def split: if_splits)
  have t: "take (GetSize v) (std_copy (slots (a_field v)) 0 (GetSize v)
             (replicate n (Type_default T)) 0) = take (GetSize v) (slots (a_field v))"
    using b True by (intro take_std_copy_fresh) simp_all
  from assms(2) True ok t b show ?thesis
    by (auto simp: Reserve_def ArrayPtr_new_def ArrayPtr_swap_def ArrayPtr_delete_def Let_def
        begin_it_def end_it_def elements_def GetSize_def GetCapacity_def length_std_copy
        well_formed_def can_alloc_def)
next
  case False
  with assms show ?thesis by (auto simp: Reserve_def)
qed

lemma well_formed_Clear: "well_formed v \<Longrightarrow> well_formed (Clear v)"
  by (simp add: well_formed_def Clear_def GetSize_def GetCapacity_def)

lemma well_formed_PopBack: "well_formed v \<Longrightarrow> PopBack v = Inr v' \<Longrightarrow> well_formed v'"
  by (auto simp: PopBack_eq well_formed_def GetSize_def GetCapacity_def split: if_splits)

lemma swap_eq: "swap v other = (other, v)"
  by (simp add: swap_def ArrayPtr_swap_def)

lemma Resize_well_formed:
  assumes "well_formed v" and "Resize T m v n = Inr (v', m')"
  shows "well_formed v'"
proof (cases "n \<le> GetCapacity v")
  case True
  from Resize_fit [OF assms(1) True assms(2)] show ?thesis by simp
next
  case False
  then have "GetCapacity v < n" by simp
  from Resize_grow_well_formed [OF assms(1) this assms(2)] show ?thesis by simp
qed

section \<open>Sequences of appends, copies, moves and assignments\<close>

lemma PushBack_all_Inr:
  "well_formed v \<Longrightarrow> PushBack_all T m v xs = Inr (v', m') \<Longrightarrow>
   GetSize v' = GetSize v + length xs \<and> elements v' = elements v @ xs \<and> well_formed v'"
proof (induction xs arbitrary: v m)
  case Nil
  then show ?case by simp
next
  case (Cons x xs)
  from Cons.prems(2) obtain v1 m1 where p: "PushBack T m v (Outside x) = Inr (v1, m1)"
    and r: "PushBack_all T m1 v1 xs = Inr (v', m')"
    by (auto split: sum.splits prod.splits)
  note q = PushBack_Inr [OF Cons.prems(1) p]
  from q have wf1: "well_formed v1" by simp
  from Cons.IH [OF wf1 r] q show ?case by simp
qed

lemma PushBack_all_returns:
  "well_formed v \<Longrightarrow> length (slots (a_field v)) = GetCapacity v \<Longrightarrow>
   GetCapacity v \<le> 2 * GetSize v \<Longrightarrow>
   3 * (GetSize v + length xs) \<le> avail m + GetCapacity v \<Longrightarrow>
   2 * (GetSize v + length xs) \<le> max_slots \<Longrightarrow>
   \<exists>v' m'. PushBack_all T m v xs = Inr (v', m')"
proof (induction xs arbitrary: v m)
  case Nil
  then show ?case by simp
next
  case (Cons x xs)
  note b = wf_bounds(1-3) [OF Cons.prems(1)]
  have ok: "GetSize v < GetCapacity v
      \<or> can_alloc m (max (GetCapacity v * 2) (GetSize v + 1))"
    using Cons.prems(3-5) b by (auto simp: can_alloc_def)
  from PushBack_returns [OF Cons.prems(1) ok, of T x]
  obtain v1 m1 where p: "PushBack T m v (Outside x) = Inr (v1, m1)" by blast
  note q = PushBack_Inr [OF Cons.prems(1) p]
  from q have wf1: "well_formed v1" by simp
  have len1: "length (slots (a_field v1)) = GetCapacity v1"
    using q b Cons.prems(2) by (cases "GetSize v = GetCapacity v") auto
  have cap1: "GetCapacity v1 \<le> 2 * GetSize v1"
    using q b Cons.prems(3) by (cases "GetSize v = GetCapacity v") auto
  have mem1: "3 * (GetSize v1 + length xs) \<le> avail m1 + GetCapacity v1"
  proof (cases "GetSize v = GetCapacity v")
    case True
    with q have "can_alloc m (GetCapacity v1)"
      and "avail m1 = avail m - GetCapacity v1 + length (slots (a_field v))"
      and "GetSize v1 = GetSize v + 1"
      by simp_all
    with Cons.prems(2,4) show ?thesis by (simp add: can_alloc_def)
  next
    case False
    with q b have "m1 = m" "GetCapacity v1 = GetCapacity v" "GetSize v1 = GetSize v + 1"
      by simp_all
    with Cons.prems(4) show ?thesis by simp
  qed
  have max1: "2 * (GetSize v1 + length xs) \<le> max_slots"
    using q Cons.prems(5) by simp
  from Cons.IH [OF wf1 len1 cap1 mem1 max1, of ] obtain v' m'
    where "PushBack_all T m1 v1 xs = Inr (v', m')" by blast
  with p show ?case by simp
qed

lemma well_formed_vec123: "well_formed vec123"
  by (simp add: well_formed_def vec123_def GetSize_def GetCapacity_def max_slots_def)

lemma can_alloc_small: "n \<le> avail m \<Longrightarrow> n \<le> 1000 \<Longrightarrow> can_alloc m n"
  by (simp add: can_alloc_def max_slots_def)

lemma SimpleVector_init_vec123: "SimpleVector_init int_ops mem0 [1, 2, 3] = Inr (vec123, mem1)"
  by (simp add: SimpleVector_init_eq can_alloc_small mem0_def mem1_def vec123_def)

lemma elements_vec123: "elements vec123 = [1, 2, 3]" "GetSize vec123 = 3" "GetCapacity vec123 = 3"
  by (simp_all add: elements_def vec123_def GetSize_def GetCapacity_def)

lemma PushBack_all_append:
  "PushBack_all T m v (xs @ ys) =
     (case PushBack_all T m v xs of
        Inl e \<Rightarrow> Inl e
      | Inr (v1, m1) \<Rightarrow> PushBack_all T m1 v1 ys)"
  by (induction xs arbitrary: v m) (auto split: sum.splits)

lemma PushBack_all_fits:
  "well_formed v \<Longrightarrow> GetSize v + length xs \<le> GetCapacity v \<Longrightarrow>
   \<exists>v'. PushBack_all T m v xs = Inr (v', m) \<and> well_formed v'
     \<and> GetSize v' = GetSize v + length xs \<and> GetCapacity v' = GetCapacity v
     \<and> raw_ptr (a_field v') = raw_ptr (a_field v)
     \<and> length (slots (a_field v')) = length (slots (a_field v))
     \<and> elements v' = elements v @ xs"
proof (induction xs arbitrary: v)
  case Nil
  then show ?case by simp
next
  case (Cons x xs)
  then have lt: "GetSize v < GetCapacity v" by simp
  from PushBack_returns [OF Cons.prems(1), where m = m and T = T and x = x] lt
  obtain v1 m1 where p: "PushBack T m v (Outside x) = Inr (v1, m1)" by blast
  note q = PushBack_Inr [OF Cons.prems(1) p]
  from q lt have m1: "m1 = m" and wf1: "well_formed v1"
    and fit: "GetSize v1 + length xs \<le> GetCapacity v1"
    using Cons.prems(2) by simp_all
  from Cons.IH [OF wf1 fit] obtain v' where "PushBack_all T m v1 xs = Inr (v', m)"
    "well_formed v'" "GetSize v' = GetSize v1 + length xs" "GetCapacity v' = GetCapacity v1"
    "raw_ptr (a_field v') = raw_ptr (a_field v1)"
    "length (slots (a_field v')) = length (slots (a_field v1))"
    "elements v' = elements v1 @ xs"
    by blast
  with p q lt m1 show ?case by simp
qed

lemma Reserve_cases:
  assumes "well_formed v" and "GetCapacity v < n"
  shows "case Reserve T m v n of
           Inl e \<Rightarrow> e = (BadAlloc, v, m) \<and> \<not> can_alloc m n
         | Inr (v', m') \<Rightarrow> can_alloc m n \<and> GetCapacity v' = n \<and> GetSize v' = GetSize v
             \<and> elements v' = elements v \<and> well_formed v'
             \<and> raw_ptr (a_field v') = next_addr m
             \<and> avail m' = avail m - n + length (slots (a_field v))"
proof (cases "Reserve T m v n")
  case (Inl e)
  with Reserve_Inl [of T m v n e] show ?thesis by auto
next
  case (Inr r)
  obtain v' m' where r: "r = (v', m')" by (cases r)
  from Reserve_Inr [OF assms(1) Inr [unfolded r]] assms(2) Inr r show ?thesis
    by (simp add: max_def)
qed

lemma default_fields:
  "GetSize (SimpleVector_default :: 'a SimpleVector) = 0"
  "GetCapacity (SimpleVector_default :: 'a SimpleVector) = 0"
  "slots (a_field (SimpleVector_default :: 'a SimpleVector)) = []"
  "raw_ptr (a_field (SimpleVector_default :: 'a SimpleVector)) = 0"
  "elements (SimpleVector_default :: 'a SimpleVector) = []"
  by (simp_all add: SimpleVector_default_def ArrayPtr_null_def GetCapacity_def GetSize_def
      elements_def)

lemma reserve_scenario:
  "case Reserve int_ops mem0 SimpleVector_default 10 of
     Inl e \<Rightarrow> False
   | Inr (v1, m1) \<Rightarrow> GetSize v1 = 0 \<and> GetCapacity v1 = 10
       \<and> (case PushBack_all int_ops m1 v1 [1, 2, 3, 4, 5] of
             Inl e \<Rightarrow> False
           | Inr (v2, m2) \<Rightarrow> GetSize v2 = 5 \<and> GetCapacity v2 = 10
               \<and> raw_ptr (a_field v2) = raw_ptr (a_field v1)
               \<and> (case PushBack_all int_ops m2 v2 [6, 7, 8, 9, 10, 11] of
                     Inl e \<Rightarrow> False
                   | Inr (v3, m3) \<Rightarrow> GetSize v3 = 11 \<and> GetCapacity v3 = 20
                       \<and> elements v3 = [1, 2, 3, 4, 5, 6, 7, 8, 9, 10, 11]))"
proof -
  have a0: "can_alloc mem0 10"
    by (simp add: can_alloc_def mem0_def max_slots_def)
  from Reserve_cases [OF well_formed_default, where n = 10 and T = int_ops and m = mem0] a0
  obtain v1 m1 where r1: "Reserve int_ops mem0 SimpleVector_default 10 = Inr (v1, m1)"
    and v1: "GetCapacity v1 = 10" "GetSize v1 = 0" "elements v1 = []" "well_formed v1"
    and m1: "avail m1 = 990"
    by (cases "Reserve int_ops mem0 SimpleVector_default 10")
      (auto simp: default_fields mem0_def)
  from PushBack_all_fits [OF v1(4), where xs = "[1, 2, 3, 4, 5]" and T = int_ops and m = m1] v1
  obtain v2 where r2: "PushBack_all int_ops m1 v1 [1, 2, 3, 4, 5] = Inr (v2, m1)"
    and v2: "well_formed v2" "GetSize v2 = 5" "GetCapacity v2 = 10"
      "raw_ptr (a_field v2) = raw_ptr (a_field v1)" "elements v2 = [1, 2, 3, 4, 5]"
    by (auto simp del: PushBack_all.simps)
  from PushBack_all_fits [OF v2(1), where xs = "[6, 7, 8, 9, 10]" and T = int_ops and m = m1] v2
  obtain v2' where r2': "PushBack_all int_ops m1 v2 [6, 7, 8, 9, 10] = Inr (v2', m1)"
    and v2': "well_formed v2'" "GetSize v2' = 10" "GetCapacity v2' = 10"
      "elements v2' = [1, 2, 3, 4, 5, 6, 7, 8, 9, 10]"
    by (auto simp del: PushBack_all.simps)
  have a1: "can_alloc m1 (max (GetCapacity v2' * 2) (GetSize v2' + 1))"
    using v2' m1 by (simp add: can_alloc_def max_slots_def)
  from PushBack_returns [OF v2'(1), where m = m1 and T = int_ops and x = 11] a1
  obtain v3 m3 where r3: "PushBack int_ops m1 v2' (Outside 11) = Inr (v3, m3)" by blast
  from PushBack_Inr [OF v2'(1) r3] v2'
  have v3: "GetSize v3 = 11" "GetCapacity v3 = 20"
    "elements v3 = [1, 2, 3, 4, 5, 6, 7, 8, 9, 10, 11]"
    by simp_all
  have "PushBack_all int_ops m1 v2 ([6, 7, 8, 9, 10] @ [11]) = Inr (v3, m3)"
    using r2' r3 by (simp only: PushBack_all_append) simp
  then have r23: "PushBack_all int_ops m1 v2 [6, 7, 8, 9, 10, 11] = Inr (v3, m3)"
    by simp
  from r1 v1 r2 v2 r23 v3 show ?thesis
    by (simp del: PushBack_all.simps)
qed

lemma operator_eq_iff:
  assumes "well_formed (s lhs)" and "well_formed (s rhs)"
  shows "operator_eq s lhs rhs \<longleftrightarrow>
    lhs = rhs \<or> (GetSize (s lhs) = GetSize (s rhs) \<and> elements (s lhs) = elements (s rhs))"
proof -
  note b1 = wf_bounds(1-3) [OF assms(1)]
  note b2 = wf_bounds(1-3) [OF assms(2)]
  have "GetSize (s lhs) = GetSize (s rhs) \<Longrightarrow>
    std_equal (slots (a_field (s lhs))) 0 (GetSize (s lhs)) (slots (a_field (s rhs))) 0
      \<longleftrightarrow> elements (s lhs) = elements (s rhs)"
    using b1 b2 by (subst std_equal_iff) (simp_all add: elements_def)
  then show ?thesis
    by (auto simp: operator_eq_def begin_it_def end_it_def)
qed

lemma operator_assign_Inl:
  assumes "operator_assign T m s this rhs = Inl e"
  shows "this \<noteq> rhs \<and> \<not> IsEmpty (s rhs) \<and> \<not> can_alloc m (GetCapacity (s rhs))
    \<and> e = (BadAlloc, s, m)"
  using assms SimpleVector_copy_Inl [of T m "s rhs"]
  by (auto simp: operator_assign_def swap_eq Let_def split: if_splits sum.splits prod.splits)

lemma operator_assign_Inr:
  assumes "well_formed (s rhs)" and "this \<noteq> rhs"
    and "operator_assign T m s this rhs = Inr (s', m')"
  shows "(\<forall>a. a \<noteq> this \<longrightarrow> s' a = s a)
    \<and> (IsEmpty (s rhs) \<longrightarrow> s' this = Clear (s this) \<and> m' = m)
    \<and> (\<not> IsEmpty (s rhs) \<longrightarrow> can_alloc m (GetCapacity (s rhs))
          \<and> SimpleVector_copy T m (s rhs)
              = Inr (s' this, m'\<lparr>avail := avail m' - length (slots (a_field (s this)))\<rparr>)
          \<and> avail m' = avail m - GetCapacity (s rhs) + length (slots (a_field (s this))))"
proof (cases "IsEmpty (s rhs)")
  case True
  with assms show ?thesis by (auto simp: operator_assign_def)
next
  case False
  with assms(2,3) obtain c m1 where c: "SimpleVector_copy T m (s rhs) = Inr (c, m1)"
    and s': "s' = s(this := c)" and m': "m' = ArrayPtr_delete m1 (a_field (s this))"
    by (auto simp: operator_assign_def swap_eq Let_def split: sum.splits prod.splits)
  note q = SimpleVector_copy_Inr [OF assms(1) c]
  from q have "avail m' = avail m - GetCapacity (s rhs) + length (slots (a_field (s this)))"
    using m' by (simp add: ArrayPtr_delete_def)
  moreover have "m'\<lparr>avail := avail m' - length (slots (a_field (s this)))\<rparr> = m1"
    using m' by (simp add: ArrayPtr_delete_def)
  ultimately show ?thesis using False c s' q by simp
qed

lemma operator_assign_well_formed:
  assumes "well_formed (s this)" and "well_formed (s rhs)"
    and "operator_assign T m s this rhs = Inr (s', m')"
  shows "well_formed (s' this)"
proof (cases "this = rhs")
  case True
  with assms show ?thesis by (simp add: operator_assign_def)
next
  case False
  note q = operator_assign_Inr [OF assms(2) False assms(3)]
  show ?thesis
  proof (cases "IsEmpty (s rhs)")
    case True
    with q assms(1) show ?thesis by (simp add: well_formed_Clear)
  next
    case False
    with q have "SimpleVector_copy T m (s rhs)
        = Inr (s' this, m'\<lparr>avail := avail m' - length (slots (a_field (s this)))\<rparr>)"
      by simp
    from SimpleVector_copy_Inr [OF assms(2) this] show ?thesis by simp
  qed
qed

lemma take_fst_std_copy_move:
  assumes "n \<le> length src"
  shows "take n (fst (std_copy_move mv src 0 n dst 0)) = map mv (take n src)"
  using assms
  by (intro nth_equalityI) (auto simp: length_std_copy_move nth_fst_std_copy_move)

lemma SimpleVector_move_moved_from:
  assumes "well_formed other" and "SimpleVector_move T m other = Inr (v, other', m')"
  shows "take (GetSize other) (slots (a_field other')) = map (moved_from T) (elements other)"
proof -
  note b = wf_bounds(1-3) [OF assms(1)]
  from assms(2) have ok: "can_alloc m (GetCapacity other)"
    by (auto simp: SimpleVector_move_def ArrayPtr_new_def split: if_splits)
  obtain ob nb where cm: "std_copy_move (moved_from T) (slots (a_field other)) 0 (GetSize other)
      (replicate (GetCapacity other) (Type_default T)) 0 = (ob, nb)"
    by (cases "std_copy_move (moved_from T) (slots (a_field other)) 0 (GetSize other)
      (replicate (GetCapacity other) (Type_default T)) 0")
  from assms(2) ok cm have "slots (a_field other') = ob"
    by (auto simp: SimpleVector_move_def ArrayPtr_new_def begin_it_def end_it_def with_slots_def)
  moreover have "take (GetSize other) ob = map (moved_from T) (take (GetSize other)
      (slots (a_field other)))"
    using take_fst_std_copy_move [of "GetSize other" "slots (a_field other)" "moved_from T"
        "replicate (GetCapacity other) (Type_default T)"] cm b by simp
  ultimately show ?thesis by (simp add: elements_def)
qed

lemma reachable_well_formed: "reachable T v \<Longrightarrow> well_formed v"
proof (induction rule: reachable.induct)
  case r_default
  show ?case by (rule well_formed_default)
next
  case (r_fill m n x v m')
  then show ?case by (rule well_formed_constructed)
next
  case (r_sized m n v m')
  then show ?case by (rule well_formed_constructed)
next
  case (r_init m init v m')
  then show ?case by (rule well_formed_constructed)
next
  case (r_reserved m obj v m')
  then show ?case by (rule well_formed_constructed)
next
  case (r_copy other m v m')
  from SimpleVector_copy_Inr [OF r_copy.IH r_copy.hyps(2)] show ?case by simp
next
  case (r_move other m v other' m')
  from SimpleVector_move_Inr [OF r_move.IH r_move.hyps(2)] show ?case by simp
next
  case (r_moved_from other m v other' m')
  from SimpleVector_move_Inr [OF r_moved_from.IH r_moved_from.hyps(2)] show ?case by simp
next
  case (r_PushBack v m r v' m')
  from PushBack_any_Inr [OF r_PushBack.hyps(2)] obtain x
    where "PushBack T m v (Outside x) = Inr (v', m')" by blast
  from PushBack_Inr [OF r_PushBack.IH this] show ?case by simp
next
  case (r_Insert v m pos r p v' m')
  from Insert_any_Inr [OF r_Insert.hyps(2)] obtain x
    where "Insert T m v pos (Outside x) = Inr (p, v', m')" by blast
  from Insert_Inr [OF r_Insert.IH this] show ?case by simp
next
  case (r_Erase v pos p v')
  from Erase_Inr [OF r_Erase.IH r_Erase.hyps(2)] show ?case by simp
next
  case (r_PopBack v v')
  then show ?case by (simp add: well_formed_PopBack)
next
  case (r_Resize v m n v' m')
  then show ?case using Resize_well_formed by blast
next
  case (r_Reserve v m n v' m')
  from Reserve_Inr [OF r_Reserve.IH r_Reserve.hyps(2)] show ?case by simp
next
  case (r_Clear v)
  then show ?case by (simp add: well_formed_Clear)
next
  case (r_swap v other v' other')
  then show ?case by (simp add: swap_eq)
next
  case (r_swapped v other v' other')
  then show ?case by (simp add: swap_eq)
next
  case (r_assign s this rhs m s' m')
  then show ?case using operator_assign_well_formed by blast
qed

lemma grown_reference_dangles:
  assumes "well_formed v" and "GetSize v = GetCapacity v"
    and "raw_ptr (a_field v) < next_addr m"
    and "ResizeForOneElement T m v = Inr (v1, m1)"
    and "raw_ptr (a_field v2) = raw_ptr (a_field v1)"
  shows "deref v v2 (Element i) = None"
  using ResizeForOneElement_Inr [OF assms(1,4)] assms(2,3,5)
  by (simp add: deref_def)

lemma PushBack_Element_grows:
  assumes "well_formed v" and "GetSize v = GetCapacity v"
  shows "case PushBack T m v (Element i) of
           Inl (e, v', m') \<Rightarrow>
             (e = BadAlloc \<and> v' = v \<and> m' = m
                \<and> \<not> can_alloc m (max (GetCapacity v * 2) (GetSize v + 1)))
             \<or> (e = DanglingReference
                \<and> can_alloc m (max (GetCapacity v * 2) (GetSize v + 1))
                \<and> GetCapacity v' = max (GetCapacity v * 2) (GetSize v + 1)
                \<and> GetSize v' = GetSize v + 1)
         | Inr (v', m') \<Rightarrow> can_alloc m (max (GetCapacity v * 2) (GetSize v + 1))
             \<and> GetCapacity v' = max (GetCapacity v * 2) (GetSize v + 1)
             \<and> GetSize v' = GetSize v + 1
             \<and> \<not> raw_ptr (a_field v) < next_addr m"
proof (cases "PushBack T m v (Element i)")
  case (Inl e)
  from PushBack_any_Inl [OF Inl] show ?thesis
  proof
    assume "\<forall>x. PushBack T m v (Outside x) = Inl e"
    then have "PushBack T m v (Outside undefined) = Inl e" by blast
    from PushBack_Inl [OF assms(1) this] Inl show ?thesis by auto
  next
    assume "\<exists>j v1 m1. Element i = Element j \<and> ResizeForOneElement T m v = Inr (v1, m1)
          \<and> deref v v1 (Element i) = None \<and> e = (DanglingReference, v1, m1)"
    then obtain v1 m1 where r: "ResizeForOneElement T m v = Inr (v1, m1)"
      and e: "e = (DanglingReference, v1, m1)" by blast
    from ResizeForOneElement_Inr [OF assms(1) r] assms(2) Inl e show ?thesis by simp
  qed
next
  case (Inr r)
  obtain v' m' where r: "r = (v', m')" by (cases r)
  from PushBack_any_Inr [OF Inr [unfolded r]] obtain x
    where o: "PushBack T m v (Outside x) = Inr (v', m')" by blast
  have nd: "\<not> raw_ptr (a_field v) < next_addr m"
  proof
    assume lt: "raw_ptr (a_field v) < next_addr m"
    from Inr r obtain v1 m1 where r1: "ResizeForOneElement T m v = Inr (v1, m1)"
      and d: "deref v v1 (Element i) \<noteq> None"
      by (auto simp: PushBack_def split: sum.splits prod.splits option.splits)
    from grown_reference_dangles [OF assms lt r1 refl] d show False by simp
  qed
  from PushBack_Inr [OF assms(1) o] assms(2) nd Inr r show ?thesis by simp
qed

lemma Insert_Element_grows:
  assumes "well_formed v" and "GetSize v = GetCapacity v" and "pos \<le> GetSize v"
  shows "case Insert T m v pos (Element i) of
           Inl (e, v', m') \<Rightarrow>
             (e = BadAlloc \<and> v' = v \<and> m' = m
                \<and> \<not> can_alloc m (max (GetCapacity v * 2) (GetSize v + 1)))
             \<or> (e = DanglingReference
                \<and> can_alloc m (max (GetCapacity v * 2) (GetSize v + 1))
                \<and> GetCapacity v' = max (GetCapacity v * 2) (GetSize v + 1)
                \<and> GetSize v' = GetSize v + 1)
         | Inr (p, v', m') \<Rightarrow> can_alloc m (max (GetCapacity v * 2) (GetSize v + 1))
             \<and> GetCapacity v' = max (GetCapacity v * 2) (GetSize v + 1)
             \<and> GetSize v' = GetSize v + 1
             \<and> \<not> raw_ptr (a_field v) < next_addr m"
proof (cases "Insert T m v pos (Element i)")
  case (Inl e)
  from Insert_any_Inl [OF Inl] show ?thesis
  proof
    assume "\<forall>x. Insert T m v pos (Outside x) = Inl e"
    then have "Insert T m v pos (Outside undefined) = Inl e" by blast
    from Insert_Inl [OF assms(1) this] assms(3) Inl show ?thesis by auto
  next
    assume "\<exists>j p v1 m1. Element i = Element j \<and> pos \<le> GetSize v
          \<and> GetPosToInsert T m v pos = Inr (p, v1, m1)
          \<and> deref v v1 (Element i) = None \<and> e = (DanglingReference, v1, m1)"
    then obtain p v2 m1 where g: "GetPosToInsert T m v pos = Inr (p, v2, m1)"
      and e: "e = (DanglingReference, v2, m1)" by blast
    from GetPosToInsert_Inr [OF assms(1,3) g, of undefined] obtain v1
      where r: "ResizeForOneElement T m v = Inr (v1, m1)"
        and f: "GetSize v2 = GetSize v1" "GetCapacity v2 = GetCapacity v1"
      by blast
    from ResizeForOneElement_Inr [OF assms(1) r] assms(2) f Inl e show ?thesis by simp
  qed
next
  case (Inr r)
  obtain p v' m' where r: "r = (p, v', m')" by (cases r)
  from Insert_any_Inr [OF Inr [unfolded r]] obtain x
    where o: "Insert T m v pos (Outside x) = Inr (p, v', m')" by blast
  have nd: "\<not> raw_ptr (a_field v) < next_addr m"
  proof
    assume lt: "raw_ptr (a_field v) < next_addr m"
    from Inr r assms(3) obtain q v2 m1 where g: "GetPosToInsert T m v pos = Inr (q, v2, m1)"
      and d: "deref v v2 (Element i) \<noteq> None"
      by (auto simp: Insert_def split: sum.splits prod.splits option.splits if_splits)
    from GetPosToInsert_Inr [OF assms(1,3) g, of undefined] obtain v1
      where r1: "ResizeForOneElement T m v = Inr (v1, m1)"
        and f: "raw_ptr (a_field v2) = raw_ptr (a_field v1)"
      by blast
    from grown_reference_dangles [OF assms(1,2) lt r1 f] d show False by simp
  qed
  from Insert_Inr [OF assms(1) o] assms(2) nd Inr r show ?thesis by simp
qed

text \<open>
  Without growth a reference to a slot stays readable, and \<^verbatim>\<open>Insert\<close> reads it after the
  shift: the slot of index \<open>i\<close> then holds the element that was at \<open>i - 1\<close> when
  \<open>pos < i\<close>, and what the move left of the element when \<open>i = pos\<close>.
\<close>

lemma Insert_Element_inserts:
  assumes "well_formed v" and "pos \<le> GetSize v" and "GetSize v < GetCapacity v"
    and "i < GetSize v"
  shows "\<exists>v'. Insert T m v pos (Element i) = Inr (pos, v', m)
    \<and> Insert T m v pos (Outside (if i < pos then elements v ! i
                                  else if i = pos then moved_from T (elements v ! i)
                                  else elements v ! (i - 1))) = Inr (pos, v', m)"
proof -
  note b = wf_bounds(1-3) [OF assms(1)]
  let ?y = "if i < pos then elements v ! i
            else if i = pos then moved_from T (elements v ! i) else elements v ! (i - 1)"
  from Insert_returns [OF assms(1,2), of m T ?y] assms(3)
  obtain v' m' where o: "Insert T m v pos (Outside ?y) = Inr (pos, v', m')" by blast
  from Insert_Inr [OF assms(1) o] assms(3) have m': "m' = m" by simp
  from o assms(2) obtain v2 where g: "GetPosToInsert T m v pos = Inr (pos, v2, m')"
    and v': "v' = with_slots v2 ((slots (a_field v2))[pos := ?y])"
    by (auto simp: Insert_def deref_def begin_it_def end_it_def
        split: sum.splits prod.splits if_splits)
  from g obtain v1 where r: "ResizeForOneElement T m v = Inr (v1, m')"
    and v2: "v2 = (if GetSize v1 > 1
                   then with_slots v1 (std_copy_backward_move_within (moved_from T)
                          (slots (a_field v1)) pos (end_it v1 - 1) (end_it v1))
                   else v1)"
    by (auto simp: GetPosToInsert_def Let_def begin_it_def split: sum.splits prod.splits)
  note q = ResizeForOneElement_Inr [OF assms(1) r]
  from q assms(3) have same: "a_field v1 = a_field v" and sz: "GetSize v1 = GetSize v + 1"
    by simp_all
  have gt: "GetSize v1 > 1" using sz assms(4) by simp
  have lt: "GetSize v < length (slots (a_field v))" using b assms(3) by simp
  have il: "i < length (slots (a_field v))" using assms(4) lt by simp
  have sl: "slots (a_field v2) = std_copy_backward_move_within (moved_from T)
      (slots (a_field v)) pos (GetSize v) (Suc (GetSize v))"
    using v2 gt same sz by (simp add: with_slots_def end_it_def)
  have rp: "raw_ptr (a_field v2) = raw_ptr (a_field v)"
    using v2 gt same by (simp add: with_slots_def)
  have rd: "slots (a_field v2) ! i = ?y"
    using assms(2,4) il lt
    by (simp add: sl nth_std_copy_backward_move_within elements_def)
  have "deref v v2 (Element i) = Some ?y"
    using rp rd il by (simp add: deref_def sl length_std_copy_backward_move_within
        ArrayPtr_index_def)
  with g v' assms(2) m' have "Insert T m v pos (Element i) = Inr (pos, v', m)"
    by (simp add: Insert_def begin_it_def end_it_def)
  with o m' show ?thesis by blast
qed

lemma Insert_Element_returns:
  assumes "well_formed v" and "pos \<le> GetSize v" and "GetSize v < GetCapacity v"
    and "i < length (slots (a_field v))"
  shows "\<exists>v'. Insert T m v pos (Element i) = Inr (pos, v', m)"
proof -
  from Insert_returns [OF assms(1,2), of m T undefined] assms(3)
  obtain v0 m0 where o: "Insert T m v pos (Outside undefined) = Inr (pos, v0, m0)" by blast
  from Insert_Inr [OF assms(1) o] assms(3) have m0: "m0 = m" by simp
  from o assms(2) obtain v2 where g: "GetPosToInsert T m v pos = Inr (pos, v2, m)"
    using m0
    by (auto simp: Insert_def deref_def begin_it_def end_it_def
        split: sum.splits prod.splits if_splits)
  from GetPosToInsert_Inr [OF assms(1,2) g, of undefined] obtain v1
    where r: "ResizeForOneElement T m v = Inr (v1, m)"
      and f: "raw_ptr (a_field v2) = raw_ptr (a_field v1)"
        "length (slots (a_field v2)) = length (slots (a_field v1))"
    by blast
  from ResizeForOneElement_Inr [OF assms(1) r] assms(3) have "a_field v1 = a_field v"
    by simp
  with f assms(4) obtain y where "deref v v2 (Element i) = Some y"
    by (simp add: deref_def)
  with g assms(2) show ?thesis
    by (simp add: Insert_def begin_it_def end_it_def)
qed

lemma well_formed_vec123_cap6: "well_formed vec123_cap6"
  by (simp add: well_formed_def vec123_cap6_def GetSize_def GetCapacity_def max_slots_def)

lemma fields_vec123_cap6:
  "elements vec123_cap6 = [1, 2, 3]" "GetSize vec123_cap6 = 3" "GetCapacity vec123_cap6 = 6"
  "length (slots (a_field vec123_cap6)) = 6"
  by (simp_all add: elements_def vec123_cap6_def GetSize_def GetCapacity_def)


text \<open>
  What \<^verbatim>\<open>Insert\<close> does with an argument outside the container: for every well-formed
  container and every position \<open>pos \<le> size\<close> it fails only when the container is full
  and the larger buffer cannot be allocated, and then changes nothing; otherwise it
  returns the position \<open>pos\<close>, the size is one more, the elements before \<open>pos\<close> are as
  they were, the element at \<open>pos\<close> is the given value, and every element that was at
  \<open>i \<ge> pos\<close> is now at \<open>i + 1\<close>.
\<close>

lemma Insert_Outside_shifts_right:
  assumes "well_formed v" and "pos \<le> GetSize v"
  shows "case Insert T m v pos (Outside x) of
           Inl e \<Rightarrow> e = (BadAlloc, v, m) \<and> GetSize v = GetCapacity v
             \<and> \<not> can_alloc m (max (GetCapacity v * 2) (GetSize v + 1))
         | Inr (p, v', m') \<Rightarrow>
             (GetSize v < GetCapacity v \<or> can_alloc m (max (GetCapacity v * 2) (GetSize v + 1)))
             \<and> p = pos \<and> GetSize v' = GetSize v + 1
             \<and> elements v' = take pos (elements v) @ x # drop pos (elements v)
             \<and> (\<forall>i. i < pos \<longrightarrow> elements v' ! i = elements v ! i)
             \<and> elements v' ! p = x \<and> At v' p = Inr x
             \<and> (\<forall>i. pos \<le> i \<and> i < GetSize v \<longrightarrow> elements v' ! (i + 1) = elements v ! i)"
proof (cases "Insert T m v pos (Outside x)")
  case (Inl e)
  from Insert_Inl [OF assms(1) Inl] assms(2) Inl show ?thesis by auto
next
  case (Inr r)
  obtain p v' m' where r: "r = (p, v', m')" by (cases r)
  note q = Insert_Inr [OF assms(1) Inr [unfolded r]]
  note b = wf_bounds(1-3) [OF assms(1)]
  have len: "length (elements v) = GetSize v"
    using b by (simp add: elements_def)
  from q have el: "elements v' = take pos (elements v) @ x # drop pos (elements v)"
    and p: "p = pos" and sz: "GetSize v' = GetSize v + 1" by simp_all
  have ok: "GetSize v < GetCapacity v \<or> can_alloc m (max (GetCapacity v * 2) (GetSize v + 1))"
    using q b by (cases "GetSize v = GetCapacity v") auto
  have before: "\<forall>i. i < pos \<longrightarrow> elements v' ! i = elements v ! i"
    using el len assms(2) by (simp add: nth_append)
  have at: "elements v' ! p = x"
    using el len assms(2) p by (simp add: nth_append)
  have At: "At v' p = Inr x"
    using at p sz assms(2) by (simp add: At_def ArrayPtr_index_def elements_def)
  have after: "\<forall>i. pos \<le> i \<and> i < GetSize v \<longrightarrow> elements v' ! (i + 1) = elements v ! i"
  proof (intro allI impI)
    fix i assume i: "pos \<le> i \<and> i < GetSize v"
    then have "i + 1 - pos = Suc (i - pos)" by arith
    with i el len assms(2) show "elements v' ! (i + 1) = elements v ! i"
      by (simp add: nth_append)
  qed
  from Inr r ok p sz el before at At after show ?thesis by simp
qed

section \<open>The claims\<close>

text \<open>
  C1: when an operation on a well-formed container has to grow the buffer
  (\<^verbatim>\<open>Resize\<close> to a target above the capacity, \<^verbatim>\<open>PushBack\<close> or \<^verbatim>\<open>Insert\<close> on a full
  container), it returns exactly when the allocator can make a block of
  \<open>max (capacity * 2) requested\<close> slots, and then that is the new capacity;
  otherwise it fails with \<open>BadAlloc\<close> and leaves container and allocator as
  they were. A container of capacity 0 that grows by one element gets capacity 1.
  That is for an argument outside the container. When the argument of \<^verbatim>\<open>PushBack\<close> or
  \<^verbatim>\<open>Insert\<close> refers to a slot of the container itself, growing releases the block it
  refers to: the allocation fails as before, or the operation has grown the container to
  that same capacity and stops on the dangling reference.
  Appending the N elements of a list to the empty container, when it returns, gives size N
  (and that list as the element sequence), and it does return when the allocator has
  \<open>3 * N\<close> free slots and \<open>2 * N\<close> slots are no more than an array
  can have.
\<close>

theorem growth_policy:
  assumes "well_formed v"
  shows "(GetCapacity v < n \<longrightarrow>
           (case Resize T m v n of
              Inl e \<Rightarrow> e = (BadAlloc, v, m) \<and> \<not> can_alloc m (max (GetCapacity v * 2) n)
            | Inr (v', m') \<Rightarrow> can_alloc m (max (GetCapacity v * 2) n)
                \<and> GetCapacity v' = max (GetCapacity v * 2) n \<and> GetSize v' = n))
    \<and> (GetSize v = GetCapacity v \<longrightarrow>
           (case PushBack T m v (Outside x) of
              Inl e \<Rightarrow> e = (BadAlloc, v, m)
                \<and> \<not> can_alloc m (max (GetCapacity v * 2) (GetSize v + 1))
            | Inr (v', m') \<Rightarrow> can_alloc m (max (GetCapacity v * 2) (GetSize v + 1))
                \<and> GetCapacity v' = max (GetCapacity v * 2) (GetSize v + 1)
                \<and> GetSize v' = GetSize v + 1
                \<and> (GetCapacity v = 0 \<longrightarrow> GetCapacity v' = 1)))
    \<and> (GetSize v = GetCapacity v \<and> pos \<le> GetSize v \<longrightarrow>
           (case Insert T m v pos (Outside x) of
              Inl e \<Rightarrow> e = (BadAlloc, v, m)
                \<and> \<not> can_alloc m (max (GetCapacity v * 2) (GetSize v + 1))
            | Inr (p, v', m') \<Rightarrow> can_alloc m (max (GetCapacity v * 2) (GetSize v + 1))
                \<and> GetCapacity v' = max (GetCapacity v * 2) (GetSize v + 1)
                \<and> GetSize v' = GetSize v + 1
                \<and> (GetCapacity v = 0 \<longrightarrow> GetCapacity v' = 1)))
    \<and> (GetSize v = GetCapacity v \<longrightarrow>
           (case PushBack T m v (Element i) of
              Inl (e, v', m') \<Rightarrow>
                (e = BadAlloc \<and> v' = v \<and> m' = m
                   \<and> \<not> can_alloc m (max (GetCapacity v * 2) (GetSize v + 1)))
                \<or> (e = DanglingReference
                   \<and> can_alloc m (max (GetCapacity v * 2) (GetSize v + 1))
                   \<and> GetCapacity v' = max (GetCapacity v * 2) (GetSize v + 1)
                   \<and> GetSize v' = GetSize v + 1)
            | Inr (v', m') \<Rightarrow> can_alloc m (max (GetCapacity v * 2) (GetSize v + 1))
                \<and> GetCapacity v' = max (GetCapacity v * 2) (GetSize v + 1)
                \<and> GetSize v' = GetSize v + 1
                \<and> \<not> raw_ptr (a_field v) < next_addr m))
    \<and> (GetSize v = GetCapacity v \<and> pos \<le> GetSize v \<longrightarrow>
           (case Insert T m v pos (Element i) of
              Inl (e, v', m') \<Rightarrow>
                (e = BadAlloc \<and> v' = v \<and> m' = m
                   \<and> \<not> can_alloc m (max (GetCapacity v * 2) (GetSize v + 1)))
                \<or> (e = DanglingReference
                   \<and> can_alloc m (max (GetCapacity v * 2) (GetSize v + 1))
                   \<and> GetCapacity v' = max (GetCapacity v * 2) (GetSize v + 1)
                   \<and> GetSize v' = GetSize v + 1)
            | Inr (p, v', m') \<Rightarrow> can_alloc m (max (GetCapacity v * 2) (GetSize v + 1))
                \<and> GetCapacity v' = max (GetCapacity v * 2) (GetSize v + 1)
                \<and> GetSize v' = GetSize v + 1
                \<and> \<not> raw_ptr (a_field v) < next_addr m))
    \<and> (case PushBack_all T m SimpleVector_default xs of
          Inl e \<Rightarrow> avail m < 3 * length xs \<or> max_slots < 2 * length xs
        | Inr (v', m') \<Rightarrow> GetSize v' = length xs \<and> elements v' = xs)"
proof -
  have resize: "GetCapacity v < n \<longrightarrow>
           (case Resize T m v n of
              Inl e \<Rightarrow> e = (BadAlloc, v, m) \<and> \<not> can_alloc m (max (GetCapacity v * 2) n)
            | Inr (v', m') \<Rightarrow> can_alloc m (max (GetCapacity v * 2) n)
                \<and> GetCapacity v' = max (GetCapacity v * 2) n \<and> GetSize v' = n)"
  proof (cases "Resize T m v n")
    case (Inl e)
    from Resize_Inl [OF assms Inl] Inl show ?thesis by simp
  next
    case (Inr r)
    obtain v' m' where r: "r = (v', m')" by (cases r)
    show ?thesis
    proof
      assume lt: "GetCapacity v < n"
      from Resize_grow [OF assms lt Inr [unfolded r]] Inr r show "case Resize T m v n of
              Inl e \<Rightarrow> e = (BadAlloc, v, m) \<and> \<not> can_alloc m (max (GetCapacity v * 2) n)
            | Inr (v', m') \<Rightarrow> can_alloc m (max (GetCapacity v * 2) n)
                \<and> GetCapacity v' = max (GetCapacity v * 2) n \<and> GetSize v' = n"
        by simp
    qed
  qed
  have push: "GetSize v = GetCapacity v \<longrightarrow>
           (case PushBack T m v (Outside x) of
              Inl e \<Rightarrow> e = (BadAlloc, v, m)
                \<and> \<not> can_alloc m (max (GetCapacity v * 2) (GetSize v + 1))
            | Inr (v', m') \<Rightarrow> can_alloc m (max (GetCapacity v * 2) (GetSize v + 1))
                \<and> GetCapacity v' = max (GetCapacity v * 2) (GetSize v + 1)
                \<and> GetSize v' = GetSize v + 1
                \<and> (GetCapacity v = 0 \<longrightarrow> GetCapacity v' = 1))"
  proof (cases "PushBack T m v (Outside x)")
    case (Inl e)
    from PushBack_Inl [OF assms Inl] Inl show ?thesis by auto
  next
    case (Inr r)
    obtain v' m' where r: "r = (v', m')" by (cases r)
    from PushBack_Inr [OF assms Inr [unfolded r]] Inr r show ?thesis by auto
  qed
  have ins: "GetSize v = GetCapacity v \<and> pos \<le> GetSize v \<longrightarrow>
           (case Insert T m v pos (Outside x) of
              Inl e \<Rightarrow> e = (BadAlloc, v, m)
                \<and> \<not> can_alloc m (max (GetCapacity v * 2) (GetSize v + 1))
            | Inr (p, v', m') \<Rightarrow> can_alloc m (max (GetCapacity v * 2) (GetSize v + 1))
                \<and> GetCapacity v' = max (GetCapacity v * 2) (GetSize v + 1)
                \<and> GetSize v' = GetSize v + 1
                \<and> (GetCapacity v = 0 \<longrightarrow> GetCapacity v' = 1))"
  proof (cases "Insert T m v pos (Outside x)")
    case (Inl e)
    from Insert_Inl [OF assms Inl] Inl show ?thesis by auto
  next
    case (Inr r)
    obtain p v' m' where r: "r = (p, v', m')" by (cases r)
    from Insert_Inr [OF assms Inr [unfolded r]] Inr r show ?thesis by auto
  qed
  note push_el = PushBack_Element_grows [OF assms, where T = T and m = m and i = i]
  note ins_el = Insert_Element_grows [OF assms, where pos = pos and T = T and m = m and i = i]
  have all: "case PushBack_all T m SimpleVector_default xs of
          Inl e \<Rightarrow> avail m < 3 * length xs \<or> max_slots < 2 * length xs
        | Inr (v', m') \<Rightarrow> GetSize v' = length xs \<and> elements v' = xs"
  proof (cases "PushBack_all T m SimpleVector_default xs")
    case (Inl e)
    have d: "length (slots (a_field (SimpleVector_default :: 'a SimpleVector)))
          = GetCapacity (SimpleVector_default :: 'a SimpleVector)"
        "GetCapacity (SimpleVector_default :: 'a SimpleVector) = 0"
        "GetSize (SimpleVector_default :: 'a SimpleVector) = 0"
      by (simp_all add: SimpleVector_default_def ArrayPtr_null_def GetCapacity_def GetSize_def)
    have "\<not> (3 * length xs \<le> avail m \<and> 2 * length xs \<le> max_slots)"
    proof
      assume "3 * length xs \<le> avail m \<and> 2 * length xs \<le> max_slots"
      with PushBack_all_returns [OF well_formed_default, of xs m T] d Inl
      show False by simp
    qed
    with Inl show ?thesis by (auto simp: not_le)
  next
    case (Inr r)
    obtain v' m' where r: "r = (v', m')" by (cases r)
    from PushBack_all_Inr [OF well_formed_default Inr [unfolded r]] Inr r show ?thesis
      by (auto simp: elements_def SimpleVector_default_def ArrayPtr_null_def GetSize_def)
  qed
  from resize push ins push_el ins_el all show ?thesis by blast
qed

theorem growth_policy_witness:
  "well_formed vec123 \<and> GetCapacity vec123 = 3 \<and> GetSize vec123 = 3
   \<and> (case Resize int_ops mem1 vec123 10 of Inl e \<Rightarrow> False
       | Inr (v', m') \<Rightarrow> GetCapacity v' = 10 \<and> GetSize v' = 10)
   \<and> (case PushBack int_ops mem1 vec123 (Outside 9) of Inl e \<Rightarrow> False
       | Inr (v', m') \<Rightarrow> GetCapacity v' = 6 \<and> GetSize v' = 4)
   \<and> (case Insert int_ops mem1 vec123 1 (Outside 9) of Inl e \<Rightarrow> False
       | Inr (p, v', m') \<Rightarrow> GetCapacity v' = 6 \<and> GetSize v' = 4)
   \<and> (case PushBack int_ops mem1 vec123 (Element 0) of
         Inl (e, v', m') \<Rightarrow> e = DanglingReference \<and> GetCapacity v' = 6 \<and> GetSize v' = 4
       | Inr r \<Rightarrow> False)
   \<and> (case Insert int_ops mem1 vec123 1 (Element 0) of
         Inl (e, v', m') \<Rightarrow> e = DanglingReference \<and> GetCapacity v' = 6 \<and> GetSize v' = 4
       | Inr r \<Rightarrow> False)
   \<and> (case PushBack_all int_ops mem1 SimpleVector_default [1, 2, 3, 4, 5] of Inl e \<Rightarrow> False
       | Inr (v', m') \<Rightarrow> GetSize v' = 5 \<and> elements v' = [1, 2, 3, 4, 5])"
proof -
  have c: "GetCapacity vec123 = 3" "GetSize vec123 = 3"
    by (simp_all add: vec123_def GetSize_def GetCapacity_def)
  have a: "can_alloc mem1 10" "can_alloc mem1 6" "avail mem1 = 997" "\<not> max_slots < 10"
    "raw_ptr (a_field vec123) < next_addr mem1"
    by (simp_all add: can_alloc_def mem1_def max_slots_def vec123_def)
  note g = growth_policy [OF well_formed_vec123, where n = 10 and T = int_ops and m = mem1
      and x = 9 and pos = 1 and i = 0 and xs = "[1, 2, 3, 4, 5]"]
  have r: "case Resize int_ops mem1 vec123 10 of Inl e \<Rightarrow> False
       | Inr (v', m') \<Rightarrow> GetCapacity v' = 10 \<and> GetSize v' = 10"
    using g c a by (cases "Resize int_ops mem1 vec123 10") (auto simp del: PushBack_all.simps)
  have p: "case PushBack int_ops mem1 vec123 (Outside 9) of Inl e \<Rightarrow> False
       | Inr (v', m') \<Rightarrow> GetCapacity v' = 6 \<and> GetSize v' = 4"
    using g c a by (cases "PushBack int_ops mem1 vec123 (Outside 9)")
      (auto simp del: PushBack_all.simps)
  have i: "case Insert int_ops mem1 vec123 1 (Outside 9) of Inl e \<Rightarrow> False
       | Inr (p, v', m') \<Rightarrow> GetCapacity v' = 6 \<and> GetSize v' = 4"
    using g c a by (cases "Insert int_ops mem1 vec123 1 (Outside 9)")
      (auto simp del: PushBack_all.simps)
  have pe: "case PushBack int_ops mem1 vec123 (Element 0) of
         Inl (e, v', m') \<Rightarrow> e = DanglingReference \<and> GetCapacity v' = 6 \<and> GetSize v' = 4
       | Inr r \<Rightarrow> False"
    using g c a by (cases "PushBack int_ops mem1 vec123 (Element 0)")
      (auto simp del: PushBack_all.simps)
  have ie: "case Insert int_ops mem1 vec123 1 (Element 0) of
         Inl (e, v', m') \<Rightarrow> e = DanglingReference \<and> GetCapacity v' = 6 \<and> GetSize v' = 4
       | Inr r \<Rightarrow> False"
    using g c a by (cases "Insert int_ops mem1 vec123 1 (Element 0)")
      (auto simp del: PushBack_all.simps)
  have l: "case PushBack_all int_ops mem1 SimpleVector_default [1, 2, 3, 4, 5] of
         Inl e \<Rightarrow> False
       | Inr (v', m') \<Rightarrow> GetSize v' = 5 \<and> elements v' = [1, 2, 3, 4, 5]"
    using g a by (cases "PushBack_all int_ops mem1 SimpleVector_default [1, 2, 3, 4, 5]")
      (auto simp del: PushBack_all.simps)
  from well_formed_vec123 c r p i pe ie l show ?thesis by blast
qed

text \<open>
  Against C2 as the spec states it ("takes ownership of the source's buffer, size, and
  capacity directly, with no element-by-element transfer"): moving from the container
  \<open>{1, 2, 3}\<close>, whose buffer is block 1, gives a container whose buffer is the newly
  allocated block 2, takes three slots from the allocator, and leaves block 1 with the
  source.
\<close>

theorem move_takes_buffer_counterexample:
  "SimpleVector_move int_ops mem1 vec123
     = Inr (\<lparr>a_field = \<lparr>raw_ptr = 2, slots = [1, 2, 3]\<rparr>, size_field = 3, capacity_field = 3\<rparr>,
            \<lparr>a_field = \<lparr>raw_ptr = 1, slots = [1, 2, 3]\<rparr>, size_field = 0, capacity_field = 0\<rparr>,
            \<lparr>next_addr = 3, avail = 994\<rparr>)
   \<and> a_field vec123 = \<lparr>raw_ptr = 1, slots = [1, 2, 3]\<rparr>
   \<and> \<lparr>raw_ptr = 2, slots = [1, 2, 3]\<rparr> \<noteq> a_field vec123
   \<and> mem1 = \<lparr>next_addr = 2, avail = 997\<rparr>"
  by (simp add: SimpleVector_move_def ArrayPtr_new_def can_alloc_small mem1_def vec123_def
      int_ops_def GetCapacity_def GetSize_def begin_it_def end_it_def with_slots_def
      std_copy_move.simps numeral_3_eq_3)

text \<open>
  C2: (as amended) move construction from a well-formed container whose buffer was
  allocated earlier asks the allocator for a new buffer of the source's capacity and fails
  when that cannot be made; otherwise the new container has the source's size, capacity
  and element sequence, in the new block; the source keeps its own block, has size 0 and
  capacity 0 (a valid empty container), and its first \<open>size\<close> slots hold what
  the moves left behind, one move per element.
\<close>

theorem move_construction:
  assumes "well_formed other" and "raw_ptr (a_field other) < next_addr m"
  shows "case SimpleVector_move T m other of
           Inl e \<Rightarrow> e = BadAlloc \<and> \<not> can_alloc m (GetCapacity other)
         | Inr (v, other', m') \<Rightarrow> can_alloc m (GetCapacity other)
             \<and> GetSize v = GetSize other \<and> GetCapacity v = GetCapacity other
             \<and> elements v = elements other \<and> well_formed v
             \<and> raw_ptr (a_field v) = next_addr m
             \<and> raw_ptr (a_field v) \<noteq> raw_ptr (a_field other)
             \<and> GetSize other' = 0 \<and> GetCapacity other' = 0 \<and> elements other' = []
             \<and> well_formed other'
             \<and> raw_ptr (a_field other') = raw_ptr (a_field other)
             \<and> length (slots (a_field other')) = length (slots (a_field other))
             \<and> take (GetSize other) (slots (a_field other'))
                 = map (moved_from T) (elements other)"
proof (cases "SimpleVector_move T m other")
  case (Inl e)
  with SimpleVector_move_Inl [of T m other e] show ?thesis by auto
next
  case (Inr r)
  obtain v other' m' where r: "r = (v, other', m')" by (cases r)
  note q = SimpleVector_move_Inr [OF assms(1) Inr [unfolded r]]
  note mf = SimpleVector_move_moved_from [OF assms(1) Inr [unfolded r]]
  from q have "elements other' = []" by (simp add: elements_def)
  with Inr r q mf assms(2) show ?thesis by simp
qed

theorem move_construction_witness:
  "well_formed vec123 \<and> raw_ptr (a_field vec123) < next_addr mem1
   \<and> (case SimpleVector_move int_ops mem1 vec123 of
         Inl e \<Rightarrow> False
       | Inr (v, other', m') \<Rightarrow> GetSize v = 3 \<and> GetCapacity v = 3 \<and> elements v = [1, 2, 3]
           \<and> raw_ptr (a_field v) = 2 \<and> raw_ptr (a_field other') = 1
           \<and> GetSize other' = 0 \<and> GetCapacity other' = 0)"
proof -
  have lt: "raw_ptr (a_field vec123) < next_addr mem1"
    by (simp add: vec123_def mem1_def)
  have a: "can_alloc mem1 3" "next_addr mem1 = 2" "raw_ptr (a_field vec123) = 1"
    by (simp_all add: can_alloc_def mem1_def max_slots_def vec123_def)
  have "case SimpleVector_move int_ops mem1 vec123 of
         Inl e \<Rightarrow> False
       | Inr (v, other', m') \<Rightarrow> GetSize v = 3 \<and> GetCapacity v = 3 \<and> elements v = [1, 2, 3]
           \<and> raw_ptr (a_field v) = 2 \<and> raw_ptr (a_field other') = 1
           \<and> GetSize other' = 0 \<and> GetCapacity other' = 0"
    using move_construction [OF well_formed_vec123 lt, where T = int_ops] a elements_vec123
    by (cases "SimpleVector_move int_ops mem1 vec123") auto
  with well_formed_vec123 lt show ?thesis by simp
qed

text \<open>
  C3: copy assignment between two distinct, well-formed containers of the store
  either returns, and then the left-hand side compares equal to the right-hand side under
  \<^verbatim>\<open>operator==\<close> (same size, same element sequence) and no other
  container of the store has changed, or fails, and then the store and the allocator are
  exactly what they were. When the right-hand side is empty it returns without
  allocating, the left-hand side keeping its buffer and its capacity. Otherwise the
  left-hand side becomes the temporary copy that
  \<^verbatim>\<open>SimpleVector(const SimpleVector&)\<close> constructs: a container in the block the
  allocator hands out for it, a block that is not the right-hand side's, with the
  right-hand side's capacity and that many slots; the allocator has given that block and
  taken back the buffer the left-hand side had; and the only failure is the failure to
  construct that copy.
\<close>

theorem copy_assignment_atomic:
  assumes "this \<noteq> rhs" and "well_formed (s this)" and "well_formed (s rhs)"
  shows "case operator_assign T m s this rhs of
           Inl (e, s', m') \<Rightarrow> e = BadAlloc \<and> s' = s \<and> m' = m \<and> \<not> IsEmpty (s rhs)
             \<and> SimpleVector_copy T m (s rhs) = Inl BadAlloc
             \<and> \<not> can_alloc m (GetCapacity (s rhs))
         | Inr (s', m') \<Rightarrow> operator_eq s' this rhs
             \<and> GetSize (s' this) = GetSize (s rhs) \<and> elements (s' this) = elements (s rhs)
             \<and> (\<forall>a. a \<noteq> this \<longrightarrow> s' a = s a)
             \<and> (IsEmpty (s rhs) \<longrightarrow> a_field (s' this) = a_field (s this)
                   \<and> GetCapacity (s' this) = GetCapacity (s this) \<and> m' = m)
             \<and> (\<not> IsEmpty (s rhs) \<longrightarrow>
                   (\<exists>m1. SimpleVector_copy T m (s rhs) = Inr (s' this, m1)
                      \<and> m' = ArrayPtr_delete m1 (a_field (s this))))
             \<and> (\<not> IsEmpty (s rhs) \<longrightarrow>
                   can_alloc m (GetCapacity (s rhs))
                   \<and> raw_ptr (a_field (s' this)) = next_addr m
                   \<and> GetCapacity (s' this) = GetCapacity (s rhs)
                   \<and> length (slots (a_field (s' this))) = GetCapacity (s rhs)
                   \<and> next_addr m' = Suc (next_addr m)
                   \<and> avail m' = avail m - GetCapacity (s rhs)
                                  + length (slots (a_field (s this))))
             \<and> (\<not> IsEmpty (s rhs) \<and> raw_ptr (a_field (s rhs)) < next_addr m \<longrightarrow>
                   raw_ptr (a_field (s' this)) \<noteq> raw_ptr (a_field (s rhs)))"
proof (cases "operator_assign T m s this rhs")
  case (Inl e)
  from operator_assign_Inl [OF Inl] Inl show ?thesis
    by (auto simp: SimpleVector_copy_Inl)
next
  case (Inr r)
  obtain s' m' where r: "r = (s', m')" by (cases r)
  note q = operator_assign_Inr [OF assms(3) assms(1) Inr [unfolded r]]
  have wf': "well_formed (s' this)"
    using operator_assign_well_formed [OF assms(2,3) Inr [unfolded r]] .
  from q assms(1) have rhs': "s' rhs = s rhs" by auto
  have same: "GetSize (s' this) = GetSize (s rhs) \<and> elements (s' this) = elements (s rhs)"
  proof (cases "IsEmpty (s rhs)")
    case True
    with q show ?thesis by (simp add: Clear_def IsEmpty_def GetSize_def elements_def)
  next
    case False
    with q have "SimpleVector_copy T m (s rhs)
        = Inr (s' this, m'\<lparr>avail := avail m' - length (slots (a_field (s this)))\<rparr>)"
      by simp
    from SimpleVector_copy_Inr [OF assms(3) this] show ?thesis by simp
  qed
  have eq: "operator_eq s' this rhs"
    using operator_eq_iff [of s' this rhs] wf' rhs' assms(3) same by simp
  have kept: "IsEmpty (s rhs) \<longrightarrow> a_field (s' this) = a_field (s this)
       \<and> GetCapacity (s' this) = GetCapacity (s this) \<and> m' = m"
    using q by (simp add: Clear_def GetCapacity_def)
  have copied: "\<not> IsEmpty (s rhs) \<longrightarrow>
       (\<exists>m1. SimpleVector_copy T m (s rhs) = Inr (s' this, m1)
          \<and> m' = ArrayPtr_delete m1 (a_field (s this)))"
  proof
    assume ne: "\<not> IsEmpty (s rhs)"
    with assms(1) Inr r obtain c m1 where c: "SimpleVector_copy T m (s rhs) = Inr (c, m1)"
      and "s' = s(this := c)" and "m' = ArrayPtr_delete m1 (a_field (s this))"
      by (auto simp: operator_assign_def swap_eq Let_def split: sum.splits prod.splits)
    then show "\<exists>m1. SimpleVector_copy T m (s rhs) = Inr (s' this, m1)
          \<and> m' = ArrayPtr_delete m1 (a_field (s this))"
      by simp
  qed
  have fresh: "\<not> IsEmpty (s rhs) \<longrightarrow>
       can_alloc m (GetCapacity (s rhs))
       \<and> raw_ptr (a_field (s' this)) = next_addr m
       \<and> GetCapacity (s' this) = GetCapacity (s rhs)
       \<and> length (slots (a_field (s' this))) = GetCapacity (s rhs)
       \<and> next_addr m' = Suc (next_addr m)
       \<and> avail m' = avail m - GetCapacity (s rhs) + length (slots (a_field (s this)))"
  proof
    assume ne: "\<not> IsEmpty (s rhs)"
    with copied obtain m1 where c: "SimpleVector_copy T m (s rhs) = Inr (s' this, m1)"
      and m': "m' = ArrayPtr_delete m1 (a_field (s this))" by blast
    from SimpleVector_copy_Inr [OF assms(3) c] m'
    show "can_alloc m (GetCapacity (s rhs))
       \<and> raw_ptr (a_field (s' this)) = next_addr m
       \<and> GetCapacity (s' this) = GetCapacity (s rhs)
       \<and> length (slots (a_field (s' this))) = GetCapacity (s rhs)
       \<and> next_addr m' = Suc (next_addr m)
       \<and> avail m' = avail m - GetCapacity (s rhs) + length (slots (a_field (s this)))"
      by (simp add: ArrayPtr_delete_def)
  qed
  have other_block: "\<not> IsEmpty (s rhs) \<and> raw_ptr (a_field (s rhs)) < next_addr m \<longrightarrow>
       raw_ptr (a_field (s' this)) \<noteq> raw_ptr (a_field (s rhs))"
    using fresh by auto
  from Inr r q same eq kept copied fresh other_block show ?thesis by auto
qed

theorem copy_assignment_atomic_witness:
  "(0::nat) \<noteq> 1 \<and> well_formed (store0 0) \<and> well_formed (store0 1)
   \<and> store0 1 = vec123 \<and> raw_ptr (a_field vec123) = 1 \<and> mem1 = \<lparr>next_addr = 2, avail = 997\<rparr>
   \<and> (case operator_assign int_ops mem1 store0 0 1 of
         Inl e \<Rightarrow> False
       | Inr (s', m') \<Rightarrow> operator_eq s' 0 1 \<and> elements (s' 0) = [1, 2, 3]
           \<and> s' 1 = vec123
           \<and> raw_ptr (a_field (s' 0)) = 2 \<and> GetCapacity (s' 0) = 3
           \<and> length (slots (a_field (s' 0))) = 3
           \<and> next_addr m' = 3 \<and> avail m' = 994)
   \<and> operator_assign int_ops mem_full store0 0 1 = Inl (BadAlloc, store0, mem_full)
   \<and> (case operator_assign int_ops mem_full store0 1 0 of
         Inl e \<Rightarrow> False
       | Inr (s', m') \<Rightarrow> elements (s' 1) = [] \<and> a_field (s' 1) = a_field vec123
           \<and> GetCapacity (s' 1) = 3 \<and> m' = mem_full)"
proof -
  have wf: "well_formed (store0 0)" "well_formed (store0 1)"
    by (simp_all add: store0_def well_formed_default well_formed_vec123)
  have st: "store0 1 = vec123" "store0 0 = SimpleVector_default"
    by (simp_all add: store0_def)
  have e: "\<not> IsEmpty (store0 1)" "IsEmpty (store0 0)"
    by (simp_all add: store0_def IsEmpty_def elements_vec123 default_fields)
  have a: "can_alloc mem1 3" "\<not> can_alloc mem_full 3" "next_addr mem1 = 2" "avail mem1 = 997"
    by (simp_all add: can_alloc_def mem1_def mem_full_def max_slots_def)
  have ne: "(0::nat) \<noteq> 1" "(1::nat) \<noteq> 0" by simp_all
  have c1: "case operator_assign int_ops mem1 store0 0 1 of
         Inl e \<Rightarrow> False
       | Inr (s', m') \<Rightarrow> operator_eq s' 0 1 \<and> elements (s' 0) = [1, 2, 3]
           \<and> s' 1 = vec123
           \<and> raw_ptr (a_field (s' 0)) = 2 \<and> GetCapacity (s' 0) = 3
           \<and> length (slots (a_field (s' 0))) = 3
           \<and> next_addr m' = 3 \<and> avail m' = 994"
    using copy_assignment_atomic [OF ne(1) wf, where T = int_ops and m = mem1] e a st
      elements_vec123 default_fields [where 'a = int]
    by (cases "operator_assign int_ops mem1 store0 0 1")
       (auto simp: SimpleVector_copy_Inl)
  have c2: "operator_assign int_ops mem_full store0 0 1 = Inl (BadAlloc, store0, mem_full)"
    using copy_assignment_atomic [OF ne(1) wf, where T = int_ops and m = mem_full] e a st
      elements_vec123 SimpleVector_copy_Inl [of int_ops mem_full vec123 BadAlloc]
    by (cases "operator_assign int_ops mem_full store0 0 1") auto
  have c3: "case operator_assign int_ops mem_full store0 1 0 of
         Inl e \<Rightarrow> False
       | Inr (s', m') \<Rightarrow> elements (s' 1) = [] \<and> a_field (s' 1) = a_field vec123
           \<and> GetCapacity (s' 1) = 3 \<and> m' = mem_full"
    using copy_assignment_atomic [OF ne(2) wf(2,1), where T = int_ops and m = mem_full] e a st
      elements_vec123 default_fields [where 'a = int]
    by (cases "operator_assign int_ops mem_full store0 1 0") auto
  have v: "raw_ptr (a_field vec123) = 1" "mem1 = \<lparr>next_addr = 2, avail = 997\<rparr>"
    by (simp_all add: vec123_def mem1_def)
  from wf st v c1 c2 c3 show ?thesis by simp
qed

text \<open>
  C4: \<^verbatim>\<open>At(index)\<close> ends in \<open>OutOfRange\<close> exactly when
  \<open>index \<ge> size\<close>, and in no
  other error; in particular \<^verbatim>\<open>At(size)\<close> fails, and below the size, so at \<open>size - 1\<close> when
  the size is positive, it returns the element at that index. No other operation and no
  constructor ever ends in \<open>OutOfRange\<close>: they end in a failed allocation or a failed
  assertion, or return; \<^verbatim>\<open>PushBack\<close> and \<^verbatim>\<open>Insert\<close>, whatever their argument
  refers to, may also stop on a dangling reference.
\<close>

theorem At_out_of_range:
  "(At v index = Inl OutOfRange \<longleftrightarrow> index \<ge> GetSize v)
   \<and> (\<forall>e. At v index = Inl e \<longrightarrow> e = OutOfRange)
   \<and> At v (GetSize v) = Inl OutOfRange
   \<and> (index < GetSize v \<longrightarrow> At v index = Inr (slots (a_field v) ! index)
        \<and> At v index = Inr (elements v ! index))
   \<and> (GetSize v > 0 \<longrightarrow> At v (GetSize v - 1) = Inr (elements v ! (GetSize v - 1)))
   \<and> (\<forall>v' m'. Resize T m v n \<noteq> Inl (OutOfRange, v', m'))
   \<and> (\<forall>v' m'. Reserve T m v n \<noteq> Inl (OutOfRange, v', m'))
   \<and> (\<forall>v' m'. PushBack T m v r \<noteq> Inl (OutOfRange, v', m'))
   \<and> (\<forall>v' m'. Insert T m v pos r \<noteq> Inl (OutOfRange, v', m'))
   \<and> (\<forall>v'. Erase T v pos \<noteq> Inl (OutOfRange, v'))
   \<and> (\<forall>v'. PopBack v \<noteq> Inl (OutOfRange, v'))
   \<and> subscript v index \<noteq> Inl OutOfRange
   \<and> (\<forall>s' m'. operator_assign T m s this rhs \<noteq> Inl (OutOfRange, s', m'))
   \<and> SimpleVector_fill T m n x \<noteq> Inl OutOfRange
   \<and> SimpleVector_sized T m n \<noteq> Inl OutOfRange
   \<and> SimpleVector_init T m init \<noteq> Inl OutOfRange
   \<and> SimpleVector_copy T m v \<noteq> Inl OutOfRange
   \<and> SimpleVector_move T m v \<noteq> Inl OutOfRange
   \<and> SimpleVector_reserved T m obj \<noteq> Inl OutOfRange"
proof -
  have new: "\<And>k. ArrayPtr_new T m k \<noteq> Inl OutOfRange"
    by (simp add: ArrayPtr_new_def)
  have at: "(At v index = Inl OutOfRange \<longleftrightarrow> index \<ge> GetSize v)
      \<and> (\<forall>e. At v index = Inl e \<longrightarrow> e = OutOfRange) \<and> At v (GetSize v) = Inl OutOfRange
      \<and> (index < GetSize v \<longrightarrow> At v index = Inr (slots (a_field v) ! index)
            \<and> At v index = Inr (elements v ! index))
      \<and> (GetSize v > 0 \<longrightarrow> At v (GetSize v - 1) = Inr (elements v ! (GetSize v - 1)))"
    by (auto simp: At_def ArrayPtr_index_def elements_def)
  have resize: "\<And>k v' m'. Resize T m v k \<noteq> Inl (OutOfRange, v', m')"
    by (auto simp: Resize_def ArrayPtr_new_def Let_def split: prod.splits)
  have one: "\<And>v' m'. ResizeForOneElement T m v \<noteq> Inl (OutOfRange, v', m')"
    using resize by (simp add: ResizeForOneElement_def)
  have reserve: "\<forall>v' m'. Reserve T m v n \<noteq> Inl (OutOfRange, v', m')"
    by (auto simp: Reserve_def ArrayPtr_new_def Let_def split: prod.splits)
  have push: "\<forall>v' m'. PushBack T m v r \<noteq> Inl (OutOfRange, v', m')"
    using one by (auto simp: PushBack_def split: sum.splits option.splits)
  have ins: "\<forall>v' m'. Insert T m v pos r \<noteq> Inl (OutOfRange, v', m')"
    using one
    by (auto simp: Insert_def GetPosToInsert_def Let_def split: sum.splits option.splits)
  have er: "\<forall>v'. Erase T v pos \<noteq> Inl (OutOfRange, v')"
    by (simp add: Erase_def Let_def)
  have pop: "\<forall>v'. PopBack v \<noteq> Inl (OutOfRange, v')"
    by (simp add: PopBack_def)
  have sub: "subscript v index \<noteq> Inl OutOfRange"
    by (simp add: subscript_def)
  have copy: "\<And>w. SimpleVector_copy T m w \<noteq> Inl OutOfRange"
    by (simp add: SimpleVector_copy_Inl)
  have asg: "\<forall>s' m'. operator_assign T m s this rhs \<noteq> Inl (OutOfRange, s', m')"
    using copy by (auto simp: operator_assign_def Let_def split: sum.splits prod.splits)
  have ctor: "SimpleVector_fill T m n x \<noteq> Inl OutOfRange"
    "SimpleVector_sized T m n \<noteq> Inl OutOfRange"
    "SimpleVector_init T m init \<noteq> Inl OutOfRange"
    "SimpleVector_move T m v \<noteq> Inl OutOfRange"
    "SimpleVector_reserved T m obj \<noteq> Inl OutOfRange"
    by (cases obj; simp add: SimpleVector_fill_eq SimpleVector_sized_def SimpleVector_init_eq
        SimpleVector_move_Inl SimpleVector_reserved_eq)+
  from at resize reserve push ins er pop sub asg ctor copy show ?thesis
    by blast
qed

theorem At_out_of_range_witness:
  "GetSize vec123 = 3 \<and> At vec123 3 = Inl OutOfRange \<and> At vec123 2 = Inr 3
   \<and> At vec123 0 = Inr 1 \<and> At vec123 7 = Inl OutOfRange"
  using At_out_of_range [of vec123 3] At_out_of_range [of vec123 2]
    At_out_of_range [of vec123 0] At_out_of_range [of vec123 7]
  by (simp add: vec123_def GetSize_def elements_def)

text \<open>
  C5: the claim is that, for every container and every position of \<open>[begin, end]\<close>,
  \<^verbatim>\<open>Insert\<close> shifts the elements from that position one slot to the right, writes the
  given value into the gap, makes the size one more and returns the position of the
  inserted element. The code does so for an argument outside the container
  (\<open>Insert_Outside_shifts_right\<close> above), and the spec's scenario holds: inserting 9
  before index 1 of \<open>{1, 2, 3}\<close> gives \<open>{1, 9, 2, 3}\<close> with size 4. It does not for an
  argument that refers to an element of the container behind the position, because
  \<^verbatim>\<open>*pos_to_insert = value\<close> reads the argument after the shift
  (\<open>Insert_Element_inserts\<close> above). On \<open>{1, 2, 3}\<close> with capacity 6,
  \<^verbatim>\<open>v.Insert(v.begin(), v[2])\<close> is given the element 3, and it leaves
  \<open>{2, 1, 2, 3}\<close>, where inserting the value 3 gives \<open>{3, 1, 2, 3}\<close>.
\<close>

theorem Insert_aliased_argument:
  "Reserve int_ops mem1 vec123 6 = Inr (vec123_cap6, mem2)
   \<and> elements vec123_cap6 = [1, 2, 3] \<and> At vec123_cap6 2 = Inr 3
   \<and> Insert int_ops mem2 vec123_cap6 0 (Element 2)
       = Inr (0, \<lparr>a_field = \<lparr>raw_ptr = 2, slots = [2, 1, 2, 3, 0, 0]\<rparr>, size_field = 4,
                  capacity_field = 6\<rparr>, mem2)
   \<and> elements \<lparr>a_field = \<lparr>raw_ptr = 2, slots = [2, 1, 2, 3, 0, 0]\<rparr>, size_field = 4,
                capacity_field = 6\<rparr> = [2, 1, 2, 3]
   \<and> Insert int_ops mem2 vec123_cap6 0 (Outside 3)
       = Inr (0, \<lparr>a_field = \<lparr>raw_ptr = 2, slots = [3, 1, 2, 3, 0, 0]\<rparr>, size_field = 4,
                  capacity_field = 6\<rparr>, mem2)
   \<and> Insert int_ops mem1 vec123 1 (Outside 9)
       = Inr (1, \<lparr>a_field = \<lparr>raw_ptr = 2, slots = [1, 9, 2, 3, 0, 0]\<rparr>, size_field = 4,
                  capacity_field = 6\<rparr>, mem2)"
proof -
  have sz: "size_t 4 = 4" "size_t 6 = 6"
    by (simp_all add: size_t_def)
  have rep6: "replicate 6 (0::int) = [0, 0, 0, 0, 0, 0]"
    by (simp add: numeral_eq_Suc)
  have reserve: "Reserve int_ops mem1 vec123 6 = Inr (vec123_cap6, mem2)"
    by (simp add: rep6 Reserve_def ArrayPtr_new_def ArrayPtr_swap_def ArrayPtr_delete_def
        can_alloc_small mem1_def mem2_def vec123_def vec123_cap6_def int_ops_def
        GetCapacity_def GetSize_def begin_it_def end_it_def std_copy.simps numeral_3_eq_3)
  have at: "At vec123_cap6 2 = Inr 3"
    by (simp add: At_def ArrayPtr_index_def vec123_cap6_def GetSize_def)
  have shift: "std_copy_backward_move_within (\<lambda>x. x) [1, 2, 3, 0, 0, 0 :: int] 0 3 4
      = [1, 1, 2, 3, 0, 0]"
    by (simp add: std_copy_backward_move_within.simps)
  have aliased: "Insert int_ops mem2 vec123_cap6 0 (Element 2)
       = Inr (0, \<lparr>a_field = \<lparr>raw_ptr = 2, slots = [2, 1, 2, 3, 0, 0]\<rparr>, size_field = 4,
                  capacity_field = 6\<rparr>, mem2)"
    by (simp add: Insert_def GetPosToInsert_def ResizeForOneElement_def deref_def
        ArrayPtr_index_def with_slots_def vec123_cap6_def int_ops_def GetCapacity_def
        GetSize_def begin_it_def end_it_def sz shift)
  have outside: "Insert int_ops mem2 vec123_cap6 0 (Outside 3)
       = Inr (0, \<lparr>a_field = \<lparr>raw_ptr = 2, slots = [3, 1, 2, 3, 0, 0]\<rparr>, size_field = 4,
                  capacity_field = 6\<rparr>, mem2)"
    by (simp add: Insert_def GetPosToInsert_def ResizeForOneElement_def deref_def
        ArrayPtr_index_def with_slots_def vec123_cap6_def int_ops_def GetCapacity_def
        GetSize_def begin_it_def end_it_def sz shift)
  have move: "std_copy_move (\<lambda>x. x) [1, 2, 3 :: int] 0 3 [0, 0, 0, 0, 0, 0] 0
      = ([1, 2, 3], [1, 2, 3, 0, 0, 0])"
    by (simp add: std_copy_move.simps)
  have fill: "std_fill [1, 2, 3, 0, 0, 0 :: int] 3 4 0 = [1, 2, 3, 0, 0, 0]"
    by (simp add: std_fill.simps)
  have shift1: "std_copy_backward_move_within (\<lambda>x. x) [1, 2, 3, 0, 0, 0 :: int] (Suc 0) 3 4
      = [1, 2, 2, 3, 0, 0]"
    by (simp add: std_copy_backward_move_within.simps)
  have scenario: "Insert int_ops mem1 vec123 1 (Outside 9)
       = Inr (1, \<lparr>a_field = \<lparr>raw_ptr = 2, slots = [1, 9, 2, 3, 0, 0]\<rparr>, size_field = 4,
                  capacity_field = 6\<rparr>, mem2)"
    by (simp add: Insert_def GetPosToInsert_def ResizeForOneElement_def Resize_def deref_def
        ArrayPtr_new_def ArrayPtr_swap_def ArrayPtr_delete_def can_alloc_small Let_def
        with_slots_def vec123_def mem1_def mem2_def int_ops_def GetCapacity_def
        GetSize_def begin_it_def end_it_def sz move fill shift1 rep6)
  from reserve at aliased outside scenario fields_vec123_cap6(1) show ?thesis
    by (simp add: elements_def GetSize_def)
qed

text \<open>
  C6: for every well-formed container, every position \<open>pos \<le> size\<close> and every value,
  when \<^verbatim>\<open>Insert\<close> at that position returns (which it does unless the container is full
  and the larger buffer cannot be allocated), \<^verbatim>\<open>Erase\<close> at the position it returned
  succeeds and gives back the original element sequence and the original size. The same
  holds when the argument refers to a slot of the container itself: \<^verbatim>\<open>Insert\<close> then
  returns whenever the container has room and the slot exists, and stops on the dangling
  reference when it had to grow.
\<close>

theorem Insert_then_Erase:
  assumes "well_formed v" and "pos \<le> GetSize v"
  shows "(case Insert T m v pos (Outside x) of
           Inl e \<Rightarrow> e = (BadAlloc, v, m) \<and> GetSize v = GetCapacity v
             \<and> \<not> can_alloc m (max (GetCapacity v * 2) (GetSize v + 1))
         | Inr (p, v1, m1) \<Rightarrow>
             (GetSize v < GetCapacity v \<or> can_alloc m (max (GetCapacity v * 2) (GetSize v + 1)))
             \<and> (case Erase T v1 p of
                   Inl e \<Rightarrow> False
                 | Inr (q, v2) \<Rightarrow> q = pos \<and> elements v2 = elements v
                     \<and> GetSize v2 = GetSize v))
    \<and> (case Insert T m v pos (Element i) of
           Inl (e, v', m') \<Rightarrow>
             (e = BadAlloc \<and> v' = v \<and> m' = m \<and> GetSize v = GetCapacity v
                \<and> \<not> can_alloc m (max (GetCapacity v * 2) (GetSize v + 1)))
             \<or> (e = DanglingReference
                \<and> (GetSize v = GetCapacity v \<or> length (slots (a_field v)) \<le> i))
         | Inr (p, v1, m1) \<Rightarrow>
             (GetSize v < GetCapacity v \<or> can_alloc m (max (GetCapacity v * 2) (GetSize v + 1)))
             \<and> (case Erase T v1 p of
                   Inl e \<Rightarrow> False
                 | Inr (q, v2) \<Rightarrow> q = pos \<and> elements v2 = elements v
                     \<and> GetSize v2 = GetSize v))"
proof -
  have outside: "case Insert T m v pos (Outside x) of
           Inl e \<Rightarrow> e = (BadAlloc, v, m) \<and> GetSize v = GetCapacity v
             \<and> \<not> can_alloc m (max (GetCapacity v * 2) (GetSize v + 1))
         | Inr (p, v1, m1) \<Rightarrow>
             (GetSize v < GetCapacity v \<or> can_alloc m (max (GetCapacity v * 2) (GetSize v + 1)))
             \<and> (case Erase T v1 p of
                   Inl e \<Rightarrow> False
                 | Inr (q, v2) \<Rightarrow> q = pos \<and> elements v2 = elements v
                     \<and> GetSize v2 = GetSize v)" for x
  proof (cases "Insert T m v pos (Outside x)")
    case (Inl e)
    from Insert_Inl [OF assms(1) Inl] assms(2) Inl show ?thesis by auto
  next
    case (Inr r)
    obtain p v1 m1 where r: "r = (p, v1, m1)" by (cases r)
    note q = Insert_Inr [OF assms(1) Inr [unfolded r]]
    note b = wf_bounds(1-3) [OF assms(1)]
    have len: "length (elements v) = GetSize v"
      using b by (simp add: elements_def)
    have ok: "GetSize v < GetCapacity v \<or> can_alloc m (max (GetCapacity v * 2) (GetSize v + 1))"
      using q b by (cases "GetSize v = GetCapacity v") auto
    from q have wf1: "well_formed v1" and p: "p = pos" and lt: "pos < GetSize v1" by simp_all
    from Erase_returns [OF lt, of T] obtain v2 where e: "Erase T v1 pos = Inr (pos, v2)"
      by blast
    note q2 = Erase_Inr [OF wf1 e]
    have "elements v2 = take pos (elements v1) @ drop (Suc pos) (elements v1)"
      using q2 by simp
    also have "\<dots> = elements v"
      using q len assms(2) by simp
    finally have el: "elements v2 = elements v" .
    from Inr r ok p e el q q2 show ?thesis by simp
  qed
  have element: "case Insert T m v pos (Element i) of
           Inl (e, v', m') \<Rightarrow>
             (e = BadAlloc \<and> v' = v \<and> m' = m \<and> GetSize v = GetCapacity v
                \<and> \<not> can_alloc m (max (GetCapacity v * 2) (GetSize v + 1)))
             \<or> (e = DanglingReference
                \<and> (GetSize v = GetCapacity v \<or> length (slots (a_field v)) \<le> i))
         | Inr (p, v1, m1) \<Rightarrow>
             (GetSize v < GetCapacity v \<or> can_alloc m (max (GetCapacity v * 2) (GetSize v + 1)))
             \<and> (case Erase T v1 p of
                   Inl e \<Rightarrow> False
                 | Inr (q, v2) \<Rightarrow> q = pos \<and> elements v2 = elements v
                     \<and> GetSize v2 = GetSize v)"
  proof (cases "Insert T m v pos (Element i)")
    case (Inl e)
    from Insert_any_Inl [OF Inl] show ?thesis
    proof
      assume "\<forall>x. Insert T m v pos (Outside x) = Inl e"
      then have "Insert T m v pos (Outside undefined) = Inl e" by blast
      from Insert_Inl [OF assms(1) this] assms(2) Inl show ?thesis by auto
    next
      assume "\<exists>j p v1 m1. Element i = Element j \<and> pos \<le> GetSize v
          \<and> GetPosToInsert T m v pos = Inr (p, v1, m1)
          \<and> deref v v1 (Element i) = None \<and> e = (DanglingReference, v1, m1)"
      then obtain v1 m1 where e: "e = (DanglingReference, v1, m1)" by blast
      have "GetSize v = GetCapacity v \<or> length (slots (a_field v)) \<le> i"
      proof (rule ccontr)
        assume "\<not> (GetSize v = GetCapacity v \<or> length (slots (a_field v)) \<le> i)"
        with wf_bounds(1) [OF assms(1)]
        have "GetSize v < GetCapacity v" "i < length (slots (a_field v))" by simp_all
        from Insert_Element_returns [OF assms this, of T m] Inl show False by simp
      qed
      with Inl e show ?thesis by simp
    qed
  next
    case (Inr r)
    obtain p v1 m1 where r: "r = (p, v1, m1)" by (cases r)
    from Insert_any_Inr [OF Inr [unfolded r]] obtain y
      where o: "Insert T m v pos (Outside y) = Inr (p, v1, m1)" by blast
    from outside [of y] o Inr r show ?thesis by simp
  qed
  from outside [of x] element show ?thesis by blast
qed

theorem Insert_then_Erase_witness:
  "well_formed vec123 \<and> 1 \<le> GetSize vec123
   \<and> (case Insert int_ops mem1 vec123 1 (Outside 9) of
         Inl e \<Rightarrow> False
       | Inr (p, v1, m1) \<Rightarrow>
           (case Erase int_ops v1 p of
              Inl e \<Rightarrow> False
            | Inr (q, v2) \<Rightarrow> q = 1 \<and> elements v2 = [1, 2, 3] \<and> GetSize v2 = 3))
   \<and> well_formed vec123_cap6 \<and> 0 \<le> GetSize vec123_cap6
   \<and> (case Insert int_ops mem2 vec123_cap6 0 (Element 2) of
         Inl e \<Rightarrow> False
       | Inr (p, v1, m1) \<Rightarrow>
           (case Erase int_ops v1 p of
              Inl e \<Rightarrow> False
            | Inr (q, v2) \<Rightarrow> q = 0 \<and> elements v2 = [1, 2, 3] \<and> GetSize v2 = 3))"
proof -
  have a: "can_alloc mem1 6"
    by (simp add: can_alloc_def mem1_def max_slots_def)
  have o: "case Insert int_ops mem1 vec123 1 (Outside 9) of
         Inl e \<Rightarrow> False
       | Inr (p, v1, m1) \<Rightarrow>
           (case Erase int_ops v1 p of
              Inl e \<Rightarrow> False
            | Inr (q, v2) \<Rightarrow> q = 1 \<and> elements v2 = [1, 2, 3] \<and> GetSize v2 = 3)"
    using Insert_then_Erase [OF well_formed_vec123, where pos = 1 and T = int_ops and m = mem1
        and x = 9 and i = 0] a elements_vec123
    by (cases "Insert int_ops mem1 vec123 1 (Outside 9)") (auto split: sum.splits)
  have e: "case Insert int_ops mem2 vec123_cap6 0 (Element 2) of
         Inl e \<Rightarrow> False
       | Inr (p, v1, m1) \<Rightarrow>
           (case Erase int_ops v1 p of
              Inl e \<Rightarrow> False
            | Inr (q, v2) \<Rightarrow> q = 0 \<and> elements v2 = [1, 2, 3] \<and> GetSize v2 = 3)"
    using Insert_then_Erase [OF well_formed_vec123_cap6, where pos = 0 and T = int_ops
        and m = mem2 and x = 9 and i = 2] fields_vec123_cap6
    by (cases "Insert int_ops mem2 vec123_cap6 0 (Element 2)") (auto split: sum.splits)
  from well_formed_vec123 well_formed_vec123_cap6 elements_vec123 o e show ?thesis by simp
qed

text \<open>
  C7: for a well-formed container and \<open>n\<close> above its capacity,
  \<^verbatim>\<open>Reserve(n)\<close> returns exactly when the allocator can make a
  block of \<open>n\<close> slots, and then the capacity is exactly \<open>n\<close> (not
  doubled) while size and element sequence are unchanged; otherwise it fails with
  \<open>BadAlloc\<close> and changes nothing. The scenario: on the empty container,
  reserving 10 gives size 0 and capacity 10; five appends then give size 5, capacity still
  10 and the same buffer (no reallocation); six further appends give size 11 and capacity
  20.
\<close>

theorem Reserve_exact:
  assumes "well_formed v" and "GetCapacity v < n"
  shows "(case Reserve T m v n of
            Inl e \<Rightarrow> e = (BadAlloc, v, m) \<and> \<not> can_alloc m n
          | Inr (v', m') \<Rightarrow> can_alloc m n \<and> GetCapacity v' = n \<and> GetSize v' = GetSize v
              \<and> elements v' = elements v)
    \<and> (case Reserve int_ops mem0 SimpleVector_default 10 of
          Inl e \<Rightarrow> False
        | Inr (v1, m1) \<Rightarrow> GetSize v1 = 0 \<and> GetCapacity v1 = 10
            \<and> (case PushBack_all int_ops m1 v1 [1, 2, 3, 4, 5] of
                  Inl e \<Rightarrow> False
                | Inr (v2, m2) \<Rightarrow> GetSize v2 = 5 \<and> GetCapacity v2 = 10
                    \<and> raw_ptr (a_field v2) = raw_ptr (a_field v1)
                    \<and> (case PushBack_all int_ops m2 v2 [6, 7, 8, 9, 10, 11] of
                          Inl e \<Rightarrow> False
                        | Inr (v3, m3) \<Rightarrow> GetSize v3 = 11 \<and> GetCapacity v3 = 20
                            \<and> elements v3 = [1, 2, 3, 4, 5, 6, 7, 8, 9, 10, 11])))"
proof -
  have "case Reserve T m v n of
            Inl e \<Rightarrow> e = (BadAlloc, v, m) \<and> \<not> can_alloc m n
          | Inr (v', m') \<Rightarrow> can_alloc m n \<and> GetCapacity v' = n \<and> GetSize v' = GetSize v
              \<and> elements v' = elements v"
    using Reserve_cases [OF assms, where T = T and m = m] by (auto split: sum.splits)
  with reserve_scenario show ?thesis by (simp del: PushBack_all.simps)
qed

theorem Reserve_exact_witness:
  "well_formed vec123 \<and> GetCapacity vec123 < 10
   \<and> (case Reserve int_ops mem1 vec123 10 of
         Inl e \<Rightarrow> False
       | Inr (v', m') \<Rightarrow> GetCapacity v' = 10 \<and> GetSize v' = 3 \<and> elements v' = [1, 2, 3])"
proof -
  have a: "can_alloc mem1 10"
    by (simp add: can_alloc_def mem1_def max_slots_def)
  have lt: "GetCapacity vec123 < 10"
    by (simp add: elements_vec123)
  have "case Reserve int_ops mem1 vec123 10 of
         Inl e \<Rightarrow> False
       | Inr (v', m') \<Rightarrow> GetCapacity v' = 10 \<and> GetSize v' = 3 \<and> elements v' = [1, 2, 3]"
    using Reserve_exact [OF well_formed_vec123 lt, where T = int_ops and m = mem1] a
      elements_vec123
    by (cases "Reserve int_ops mem1 vec123 10") (auto simp del: PushBack_all.simps)
  with well_formed_vec123 lt show ?thesis by simp
qed

text \<open>
  C8: every container reachable from the constructors by
  \<^verbatim>\<open>PushBack\<close>, \<^verbatim>\<open>Insert\<close>,
  \<^verbatim>\<open>Erase\<close>, \<^verbatim>\<open>PopBack\<close>,
  \<^verbatim>\<open>Resize\<close>, \<^verbatim>\<open>Reserve\<close>,
  \<^verbatim>\<open>Clear\<close>, \<^verbatim>\<open>swap\<close>, copy and move
  construction and assignment satisfies \<open>0 \<le> size \<le> capacity\<close>.
\<close>

theorem size_le_capacity:
  assumes "reachable T v"
  shows "0 \<le> GetSize v \<and> GetSize v \<le> GetCapacity v"
  using reachable_well_formed [OF assms] by (simp add: well_formed_def)

theorem size_le_capacity_witness:
  "reachable int_ops vec123 \<and> GetSize vec123 = 3 \<and> GetCapacity vec123 = 3
   \<and> (\<exists>v m. PushBack int_ops mem1 vec123 (Outside 4) = Inr (v, m) \<and> reachable int_ops v
         \<and> GetSize v \<le> GetCapacity v)"
proof -
  have r: "reachable int_ops vec123"
    using SimpleVector_init_vec123 by (rule r_init)
  have a: "can_alloc mem1 (max (GetCapacity vec123 * 2) (GetSize vec123 + 1))"
    by (simp add: can_alloc_def mem1_def max_slots_def elements_vec123)
  from PushBack_returns [OF well_formed_vec123, where m = mem1 and T = int_ops and x = 4] a
  obtain v m where p: "PushBack int_ops mem1 vec123 (Outside 4) = Inr (v, m)" by blast
  have r': "reachable int_ops v"
    using r p by (rule r_PushBack)
  from size_le_capacity [OF r'] size_le_capacity [OF r] r r' p elements_vec123
  show ?thesis by simp
qed

text \<open>
  C9: for every container of the store, assigning it to itself returns at once: every
  container of the store (so its size, capacity, buffer and element sequence) and the
  allocator are what they were, because \<^verbatim>\<open>this != &rhs\<close> is false and nothing is done.
\<close>

theorem self_assignment_unchanged:
  "operator_assign T m s this this = Inr (s, m)"
  by (simp add: operator_assign_def)

text \<open>
  C10: \<^verbatim>\<open>PopBack\<close> on a non-empty container returns, with the same
  capacity and the same buffer, the size one less, and the first \<open>size - 1\<close>
  elements as they were; \<^verbatim>\<open>Erase\<close> at a dereferenceable position
  \<open>pos < size\<close> of a well-formed container returns, with the same capacity and
  the same buffer block, and the elements before \<open>pos\<close> as they were.
\<close>

theorem PopBack_Erase_keep_capacity:
  "(GetSize v > 0 \<longrightarrow>
      (\<exists>v'. PopBack v = Inr v' \<and> GetCapacity v' = GetCapacity v
         \<and> GetSize v' = GetSize v - 1 \<and> a_field v' = a_field v
         \<and> elements v' = take (GetSize v - 1) (elements v)))
   \<and> (well_formed v \<and> pos < GetSize v \<longrightarrow>
      (\<exists>v'. Erase T v pos = Inr (pos, v') \<and> GetCapacity v' = GetCapacity v
         \<and> GetSize v' = GetSize v - 1
         \<and> raw_ptr (a_field v') = raw_ptr (a_field v)
         \<and> length (slots (a_field v')) = length (slots (a_field v))
         \<and> take pos (elements v') = take pos (elements v)))"
proof (intro conjI impI)
  assume "GetSize v > 0"
  then show "\<exists>v'. PopBack v = Inr v' \<and> GetCapacity v' = GetCapacity v
         \<and> GetSize v' = GetSize v - 1 \<and> a_field v' = a_field v
         \<and> elements v' = take (GetSize v - 1) (elements v)"
    by (simp add: PopBack_eq GetCapacity_def GetSize_def elements_def min_def)
next
  assume a: "well_formed v \<and> pos < GetSize v"
  then have wf: "well_formed v" and lt: "pos < GetSize v" by simp_all
  note b = wf_bounds(1-3) [OF wf]
  from Erase_returns [OF lt, of T] obtain v' where e: "Erase T v pos = Inr (pos, v')"
    by blast
  note q = Erase_Inr [OF wf e]
  have len: "length (elements v) = GetSize v"
    using b by (simp add: elements_def)
  have "take pos (elements v') = take pos (take pos (elements v) @ drop (Suc pos) (elements v))"
    using q by simp
  also have "\<dots> = take pos (elements v)"
    using len lt by simp
  finally have "take pos (elements v') = take pos (elements v)" .
  with e q show "\<exists>v'. Erase T v pos = Inr (pos, v') \<and> GetCapacity v' = GetCapacity v
         \<and> GetSize v' = GetSize v - 1
         \<and> raw_ptr (a_field v') = raw_ptr (a_field v)
         \<and> length (slots (a_field v')) = length (slots (a_field v))
         \<and> take pos (elements v') = take pos (elements v)"
    by simp
qed

theorem PopBack_Erase_keep_capacity_witness:
  "GetSize vec123 > 0 \<and> well_formed vec123 \<and> 1 < GetSize vec123
   \<and> (\<exists>v'. PopBack vec123 = Inr v' \<and> GetCapacity v' = 3 \<and> GetSize v' = 2
         \<and> elements v' = [1, 2])
   \<and> (\<exists>v'. Erase int_ops vec123 1 = Inr (1, v') \<and> GetCapacity v' = 3 \<and> GetSize v' = 2
         \<and> take 1 (elements v') = [1])"
  using PopBack_Erase_keep_capacity [where v = vec123 and pos = 1 and T = int_ops] well_formed_vec123 elements_vec123
  by auto

end
